theory Spec2Isabelle
  imports Complex_Main "HOL-Library.Word" "HOL-Library.Sublist"
begin

section \<open>JavaScript strings\<close>

text \<open>
  A JavaScript string is a sequence of UTF-16 code units and \<^verbatim>\<open>length\<close> counts
  code units, so a string is a list of 16-bit words.  A literal of the source is written
  \<open>js ''...''\<close>; the two letters of the record grammar outside ASCII (U+00F3 and
  U+00E3) are written as their code units.
\<close>

type_synonym jschar = "16 word"
type_synonym jsstring = "jschar list"

definition js :: "string \<Rightarrow> jsstring" where
  "js s = map of_char s"

text \<open>
  White space as \<^verbatim>\<open>String.prototype.trim\<close> and the regular-expression class
  \<^verbatim>\<open>\s\<close> understand it: the WhiteSpace and LineTerminator code points of ECMAScript.
\<close>

definition isWhiteSpace :: "jschar \<Rightarrow> bool" where
  "isWhiteSpace c =
     (c = 0x9 \<or> c = 0xA \<or> c = 0xB \<or> c = 0xC \<or> c = 0xD \<or> c = 0x20 \<or> c = 0xA0 \<or>
      c = 0x1680 \<or> (0x2000 \<le> c \<and> c \<le> 0x200A) \<or> c = 0x2028 \<or> c = 0x2029 \<or>
      c = 0x202F \<or> c = 0x205F \<or> c = 0x3000 \<or> c = 0xFEFF)"

definition trim :: "jsstring \<Rightarrow> jsstring" where
  "trim s = rev (dropWhile isWhiteSpace (rev (dropWhile isWhiteSpace s)))"

text \<open>
  \<^verbatim>\<open>indexOf\<close>: the least position at which the pattern occurs, \<open>None\<close> for the
  source's \<^verbatim>\<open>-1\<close>.
\<close>

fun indexOf :: "jsstring \<Rightarrow> jsstring \<Rightarrow> nat option" where
  "indexOf [] pat = (if pat = [] then Some 0 else None)"
| "indexOf (c # cs) pat =
     (if prefix pat (c # cs) then Some 0 else map_option Suc (indexOf cs pat))"

text \<open>
  \<^verbatim>\<open>String.prototype.split\<close> with a string separator: an empty separator cuts the
  string into its code units; otherwise the occurrences of the separator are found from
  the left, each search starting behind the previous occurrence, and the pieces between
  them are returned, the piece behind the last occurrence included.
\<close>

function split :: "jsstring \<Rightarrow> jsstring \<Rightarrow> jsstring list" where
  "split s sep =
     (if sep = [] then map (\<lambda>c. [c]) s
      else case indexOf s sep of
             None \<Rightarrow> [s]
           | Some j \<Rightarrow> take j s # split (drop (j + length sep) s) sep)"
  by pat_completeness auto

lemma indexOf_bound: "indexOf s pat = Some j \<Longrightarrow> j + length pat \<le> length s"
proof (induction s arbitrary: j)
  case Nil
  then show ?case by (simp split: if_splits)
next
  case (Cons c cs)
  show ?case
  proof (cases "prefix pat (c # cs)")
    case True
    then have "length pat \<le> length (c # cs)" by (rule prefix_length_le)
    with True Cons.prems show ?thesis by simp
  next
    case False
    with Cons.prems obtain k where "indexOf cs pat = Some k" "j = Suc k"
      by auto
    with Cons.IH show ?thesis by fastforce
  qed
qed

termination split
proof (relation "measure (\<lambda>(s, sep). length s)")
  show "wf (measure (\<lambda>(s, sep). length s))" by simp
next
  fix s sep :: jsstring and j
  assume "sep \<noteq> []" "indexOf s sep = Some j"
  then have "0 < length sep" "j + length sep \<le> length s"
    by (simp_all add: indexOf_bound)
  then have "length s - (j + length sep) < length s"
    by arith
  then show "((drop (j + length sep) s, sep), (s, sep)) \<in> measure (\<lambda>(s, sep). length s)"
    by simp
qed

declare split.simps [simp del]

section \<open>The serial reader\<close>

text \<open>
  The fields of \<^verbatim>\<open>SerialReader\<close>.  A reference to a browser object (port, reader,
  writer, the promise of a pipe) is an optional handle; a callback is modelled by whether
  one is registered, and what it is called with is returned by the operation that calls it.
\<close>

type_synonym handle = nat

record SerialReader =
  port :: "handle option"
  reader :: "handle option"
  writer :: "handle option"
  isConnected :: bool
  onDataCallback :: bool
  onStatusChangeCallback :: bool
  readableStreamClosed :: "handle option"
  writableStreamClosed :: "handle option"
  buffer :: jsstring
  keepReading :: bool
  isDisconnecting :: bool

definition constructor :: SerialReader where
  "constructor =
     \<lparr>port = None, reader = None, writer = None, isConnected = False,
      onDataCallback = False, onStatusChangeCallback = False,
      readableStreamClosed = None, writableStreamClosed = None,
      buffer = [], keepReading = False, isDisconnecting = False\<rparr>"

definition onData :: "SerialReader \<Rightarrow> SerialReader" where
  "onData this = this\<lparr>onDataCallback := True\<rparr>"

definition separator :: jsstring where
  "separator = replicate 58 0x3D"

text \<open>
  \<^verbatim>\<open>processData(chunk)\<close> returns the readings handed to the data callback, in the
  order of the calls, and the reader with its new buffer.
\<close>

definition processData :: "SerialReader \<Rightarrow> jsstring \<Rightarrow> jsstring list \<times> SerialReader" where
  "processData this chunk =
     (let buf = buffer this @ chunk;
          parts = split buf separator;
          readings = filter (\<lambda>reading. reading \<noteq> [] \<and> onDataCallback this)
                       (map trim (butlast parts));
          buf' = last parts
      in (readings, this\<lparr>buffer := (if length buf' > 10000 then [] else buf')\<rparr>))"

text \<open>Feeding a sequence of chunks, one call each.\<close>

fun feed :: "SerialReader \<Rightarrow> jsstring list \<Rightarrow> jsstring list \<times> SerialReader" where
  "feed this [] = ([], this)"
| "feed this (chunk # chunks) =
     (let (out, this') = processData this chunk;
          (outs, this'') = feed this' chunks
      in (out @ outs, this''))"

text \<open>
  No call of the sequence clears the buffer: the piece kept by each call has at most 10000
  code units.
\<close>

fun neverClears :: "SerialReader \<Rightarrow> jsstring list \<Rightarrow> bool" where
  "neverClears this [] = True"
| "neverClears this (chunk # chunks) =
     (length (last (split (buffer this @ chunk) separator)) \<le> 10000 \<and>
      neverClears (snd (processData this chunk)) chunks)"


text \<open>
  The teardown.  The browser operations that \<^verbatim>\<open>_cleanupConnection\<close> awaits are the steps
  below; how each one ends is given by the environment \<open>browser\<close>.  A rejection carries a
  value; the \<^verbatim>\<open>catch\<close> of \<^verbatim>\<open>_safeOperation\<close> reads its \<^verbatim>\<open>message\<close>, else its
  \<^verbatim>\<open>toString()\<close>, else takes a fixed text.  \<open>Rejects\<close> holds the text so obtained;
  \<open>RejectsUnreadable\<close> is a rejection with a value for which reading them throws (a
  \<^verbatim>\<open>message\<close> getter that throws, or no message and no callable \<^verbatim>\<open>toString\<close>).

  An operation returns what it did, in order: the browser operations it called, the
  warnings it logged and the calls of the status callback (plain \<^verbatim>\<open>console.log\<close> lines are
  left out); the reader as it has become; and, for the two operations that can throw, the
  exception if one was thrown.  The model is sequential: what other tasks do while the
  teardown awaits, and the delay of 100 ms behind the closing of the port, are not part
  of it.
\<close>

datatype step = CancelReader | CloseWriter | AwaitReadable | AwaitWritable | ClosePort

datatype outcome = Resolves | Rejects jsstring | RejectsUnreadable

datatype exception = TypeError

datatype connection_status = Connected | Disconnected | Connecting | Error

datatype effect =
    Call step
  | Warn step jsstring
  | WarnCleanup exception
  | StatusChange connection_status jsstring

definition updateStatus ::
    "connection_status \<Rightarrow> jsstring \<Rightarrow> SerialReader \<Rightarrow> effect list \<times> SerialReader" where
  "updateStatus status message this =
     (if onStatusChangeCallback this then [StatusChange status message] else [],
      this\<lparr>isConnected := (status = Connected)\<rparr>)"

text \<open>
  \<^verbatim>\<open>_safeOperation\<close> calls the operation and turns a rejection into a warning; it throws when
  the text of the warning cannot be made.
\<close>

definition safeOperation ::
    "(step \<Rightarrow> outcome) \<Rightarrow> step \<Rightarrow> effect list \<times> exception option" where
  "safeOperation browser operation =
     (case browser operation of
        Resolves \<Rightarrow> ([Call operation], None)
      | Rejects errorMsg \<Rightarrow> ([Call operation, Warn operation errorMsg], None)
      | RejectsUnreadable \<Rightarrow> ([Call operation], Some TypeError))"

text \<open>
  The awaits of \<^verbatim>\<open>_cleanupConnection\<close> one behind the other: an exception ends the function
  where it is thrown, and the steps behind it are not reached.
\<close>

fun awaitAll :: "(effect list \<times> exception option) list \<Rightarrow> effect list \<times> exception option" where
  "awaitAll [] = ([], None)"
| "awaitAll ((effects, Some e) # steps) = (effects, Some e)"
| "awaitAll ((effects, None) # steps) =
     (let (effects', thrown) = awaitAll steps in (effects @ effects', thrown))"

definition cleanupConnection ::
    "(step \<Rightarrow> outcome) \<Rightarrow> SerialReader \<Rightarrow> effect list \<times> SerialReader \<times> exception option" where
  "cleanupConnection browser this =
     (let this = this\<lparr>keepReading := False\<rparr>;
          step2 = (if reader this \<noteq> None
                   then safeOperation browser CancelReader else ([], None));
          step3 = (if writer this \<noteq> None
                   then safeOperation browser CloseWriter else ([], None));
          step4 = (if readableStreamClosed this \<noteq> None
                   then safeOperation browser AwaitReadable else ([], None));
          step5 = (if writableStreamClosed this \<noteq> None
                   then safeOperation browser AwaitWritable else ([], None));
          step6 = (if port this \<noteq> None
                   then safeOperation browser ClosePort else ([], None));
          (effects, thrown) = awaitAll [step2, step3, step4, step5, step6]
      in case thrown of
           Some e \<Rightarrow> (effects, this, Some e)
         | None \<Rightarrow>
             (effects,
              this\<lparr>port := None, reader := None, writer := None,
                   readableStreamClosed := None, writableStreamClosed := None,
                   isDisconnecting := False, buffer := []\<rparr>,
              None))"

text \<open>
  \<^verbatim>\<open>disconnect\<close>, with the forced cleanup of its \<^verbatim>\<open>catch\<close>, which clears the references and
  the flag and leaves the buffer.
\<close>

definition disconnect ::
    "(step \<Rightarrow> outcome) \<Rightarrow> SerialReader \<Rightarrow> effect list \<times> SerialReader" where
  "disconnect browser this =
     (if isDisconnecting this then ([], this)
      else if port this = None
        then updateStatus Disconnected (js ''Disconnected from serial port'') this
      else
        let this = this\<lparr>isDisconnecting := True, keepReading := False\<rparr>;
            (effects, this, thrown) = cleanupConnection browser this;
            (caught, this) =
              (case thrown of
                 None \<Rightarrow> ([], this)
               | Some error \<Rightarrow>
                   ([WarnCleanup error],
                    this\<lparr>port := None, reader := None, writer := None,
                         readableStreamClosed := None, writableStreamClosed := None,
                         isDisconnecting := False\<rparr>));
            (effects', this) =
              updateStatus Disconnected (js ''Disconnected from serial port'') this
        in (effects @ caught @ effects', this))"

text \<open>Whether the reference that guards a step is set.\<close>

fun isSet :: "SerialReader \<Rightarrow> step \<Rightarrow> bool" where
  "isSet this CancelReader = (reader this \<noteq> None)"
| "isSet this CloseWriter = (writer this \<noteq> None)"
| "isSet this AwaitReadable = (readableStreamClosed this \<noteq> None)"
| "isSet this AwaitWritable = (writableStreamClosed this \<noteq> None)"
| "isSet this ClosePort = (port this \<noteq> None)"

text \<open>The browser operations called, and the states reported, among the effects.\<close>

fun calls :: "effect list \<Rightarrow> step list" where
  "calls [] = []"
| "calls (Call operation # effects) = operation # calls effects"
| "calls (_ # effects) = calls effects"

fun statusChanges :: "effect list \<Rightarrow> connection_status list" where
  "statusChanges [] = []"
| "statusChanges (StatusChange status message # effects) = status # statusChanges effects"
| "statusChanges (_ # effects) = statusChanges effects"

text \<open>Every rejection of the environment has a text that can be read.\<close>

definition readable :: "(step \<Rightarrow> outcome) \<Rightarrow> bool" where
  "readable browser =
     (browser CancelReader \<noteq> RejectsUnreadable \<and> browser CloseWriter \<noteq> RejectsUnreadable \<and>
      browser AwaitReadable \<noteq> RejectsUnreadable \<and> browser AwaitWritable \<noteq> RejectsUnreadable \<and>
      browser ClosePort \<noteq> RejectsUnreadable)"

text \<open>
  A reader as a successful \<^verbatim>\<open>connect\<close> leaves it, with text in the buffer: nothing in the
  source assigns \<^verbatim>\<open>writableStreamClosed\<close>.
\<close>

definition connectedReader :: SerialReader where
  "connectedReader =
     constructor\<lparr>port := Some 0, reader := Some 1, writer := Some 2,
       readableStreamClosed := Some 3, keepReading := True, isConnected := True,
       onStatusChangeCallback := True, buffer := js ''BATERIA''\<rparr>"


section \<open>JavaScript numbers\<close>

text \<open>
  A number is \<^verbatim>\<open>NaN\<close> or a real: a finite double is the decimal numeral that JavaScript
  prints for it and reads back as the same double.  The numerals of the record grammar, the
  thresholds of \<^verbatim>\<open>getCellStatus\<close> and the comparisons are exact in this reading, numerals
  beyond the precision of a double and the overflow to \<^verbatim>\<open>Infinity\<close> are left out.  Every
  comparison with \<^verbatim>\<open>NaN\<close> is false.

  A difference of doubles is rounded, so it is not the difference of the reals.  Two
  subtractions occur in the parser.  The comparator of the sort subtracts cell numbers,
  integers, whose difference is exact: this is \<open>sub\<close>.  The differential voltage subtracts two
  voltages: this subtraction is the argument \<open>subtract\<close> of
  \<^verbatim>\<open>calculateIndividualVoltages\<close> and \<open>parse\<close>, of which nothing is assumed, so that what
  is proved of them holds of the subtraction of doubles.
\<close>

datatype number = NaN | Num real

fun sub :: "number \<Rightarrow> number \<Rightarrow> number" where
  "sub (Num a) (Num b) = Num (a - b)"
| "sub _ _ = NaN"

fun lt :: "number \<Rightarrow> number \<Rightarrow> bool" where
  "lt (Num a) (Num b) = (a < b)"
| "lt _ _ = False"

fun le :: "number \<Rightarrow> number \<Rightarrow> bool" where
  "le (Num a) (Num b) = (a \<le> b)"
| "le _ _ = False"

definition gt :: "number \<Rightarrow> number \<Rightarrow> bool" where
  "gt a b = lt b a"

definition ge :: "number \<Rightarrow> number \<Rightarrow> bool" where
  "ge a b = le b a"

fun strictEquals :: "number \<Rightarrow> number \<Rightarrow> bool" where
  "strictEquals (Num a) (Num b) = (a = b)"
| "strictEquals _ _ = False"

fun Math_abs :: "number \<Rightarrow> number" where
  "Math_abs (Num a) = Num \<bar>a\<bar>"
| "Math_abs NaN = NaN"

text \<open>
  \<^verbatim>\<open>parseInt\<close> and \<^verbatim>\<open>parseFloat\<close> on what the regular expressions capture, strings of
  digits, minus signs and dots: an optional minus sign, then the longest numeral that
  follows; \<^verbatim>\<open>NaN\<close> when there is no digit.
\<close>

definition isDigit :: "jschar \<Rightarrow> bool" where
  "isDigit c = (0x30 \<le> c \<and> c \<le> 0x39)"

definition digitsValue :: "jsstring \<Rightarrow> nat" where
  "digitsValue ds = foldl (\<lambda>n c. 10 * n + (unat c - 48)) 0 ds"

definition parseInt :: "jsstring \<Rightarrow> number" where
  "parseInt s =
     (let negative = (s \<noteq> [] \<and> hd s = 0x2D);
          ds = takeWhile isDigit (if negative then tl s else s)
      in if ds = [] then NaN
         else if negative then Num (- real (digitsValue ds))
         else Num (real (digitsValue ds)))"

definition parseFloat :: "jsstring \<Rightarrow> number" where
  "parseFloat s =
     (let negative = (s \<noteq> [] \<and> hd s = 0x2D);
          r = (if negative then tl s else s);
          ip = takeWhile isDigit r;
          r' = dropWhile isDigit r;
          fp = (if r' \<noteq> [] \<and> hd r' = 0x2E then takeWhile isDigit (tl r') else []);
          v = real (digitsValue ip) + real (digitsValue fp) / 10 ^ length fp
      in if ip = [] \<and> fp = [] then NaN
         else if negative then Num (- v)
         else Num v)"

text \<open>
  A number inside a template literal, for the integers below \<open>10\<^sup>2\<^sup>1\<close> that
  \<^verbatim>\<open>parseInt\<close> returns: the decimal digits, with the sign of a negative number.
\<close>

function digitsOf :: "nat \<Rightarrow> jsstring" where
  "digitsOf n = (if n < 10 then [of_nat (48 + n)] else digitsOf (n div 10) @ [of_nat (48 + n mod 10)])"
  by pat_completeness auto
termination
  by (relation "measure (\<lambda>n. n)") auto

declare digitsOf.simps [simp del]

fun toString :: "number \<Rightarrow> jsstring" where
  "toString NaN = js ''NaN''"
| "toString (Num x) = (if x < 0 then 0x2D # digitsOf (nat \<lfloor>- x\<rfloor>) else digitsOf (nat \<lfloor>x\<rfloor>))"

section \<open>Regular expressions\<close>

text \<open>
  The four patterns of the parser are sequences of literal text, of \<^verbatim>\<open>c+\<close> for a character
  class \<^verbatim>\<open>c\<close>, and of capture groups \<^verbatim>\<open>(c+)\<close>.  Matching is the backtracking of
  ECMAScript: \<^verbatim>\<open>c+\<close> first takes the longest run of the class and gives code units back one at
  a time while the rest of the pattern fails; the match is tried at every start position
  from the left.  \<^verbatim>\<open>match\<close> returns the array of the source: the matched text at index 0 and
  the groups behind it, or \<open>None\<close> for \<^verbatim>\<open>null\<close>.
\<close>

datatype atom = Lit jsstring | Plus "jschar \<Rightarrow> bool" | GroupPlus "jschar \<Rightarrow> bool"

fun backtrack :: "(nat \<Rightarrow> 'a option) \<Rightarrow> nat \<Rightarrow> 'a option" where
  "backtrack f 0 = None"
| "backtrack f (Suc k) = (case f (Suc k) of Some r \<Rightarrow> Some r | None \<Rightarrow> backtrack f k)"

primrec matchHere :: "atom list \<Rightarrow> jsstring \<Rightarrow> (jsstring list \<times> jsstring) option" where
  "matchHere [] = (\<lambda>s. Some ([], s))"
| "matchHere (a # as) = (\<lambda>s.
     case a of
       Lit l \<Rightarrow> if prefix l s then matchHere as (drop (length l) s) else None
     | Plus c \<Rightarrow> backtrack (\<lambda>k. matchHere as (drop k s)) (length (takeWhile c s))
     | GroupPlus c \<Rightarrow>
         backtrack (\<lambda>k. map_option (\<lambda>(groups, rest). (take k s # groups, rest))
                          (matchHere as (drop k s)))
           (length (takeWhile c s)))"

fun match :: "jsstring \<Rightarrow> atom list \<Rightarrow> jsstring list option" where
  "match s regex =
     (case matchHere regex s of
        Some (groups, rest) \<Rightarrow> Some (take (length s - length rest) s # groups)
      | None \<Rightarrow> (case s of [] \<Rightarrow> None | c # cs \<Rightarrow> match cs regex))"

declare match.simps [simp del]

definition isVoltageChar :: "jschar \<Rightarrow> bool" where
  "isVoltageChar c = (c = 0x2D \<or> isDigit c \<or> c = 0x2E)"

definition isRawChar :: "jschar \<Rightarrow> bool" where
  "isRawChar c = (c = 0x2D \<or> isDigit c)"

definition isHexDigit :: "jschar \<Rightarrow> bool" where
  "isHexDigit c = (isDigit c \<or> (0x41 \<le> c \<and> c \<le> 0x46) \<or> (0x61 \<le> c \<and> c \<le> 0x66))"

definition totalVoltage_pattern :: "atom list" where
  "totalVoltage_pattern =
     [Lit (js ''BATERIA TOTAL (''), GroupPlus isDigit, Lit (js ''S):''), Plus isWhiteSpace,
      GroupPlus isVoltageChar, Lit (js ''V'')]"

definition individualCell_pattern :: "atom list" where
  "individualCell_pattern =
     [Lit (js ''Cel''), Plus isWhiteSpace, GroupPlus isDigit, Lit (js '':''), Plus isWhiteSpace,
      GroupPlus isVoltageChar, Lit (js ''V'')]"

definition moduleHeader_pattern :: "atom list" where
  "moduleHeader_pattern =
     [Lit (js ''M'' @ [0xF3] @ js ''dulo''), Plus isWhiteSpace, GroupPlus isDigit,
      Plus isWhiteSpace, Lit (js ''(0x''), GroupPlus isHexDigit, Lit (js ''):'')]"

definition pinData_pattern :: "atom list" where
  "pinData_pattern =
     [Lit (js ''A''), GroupPlus isDigit, Plus isWhiteSpace, Lit (js ''(''), GroupPlus isDigit,
      Lit (js ''S):''), Plus isWhiteSpace, Lit (js ''RAW=''), GroupPlus isRawChar,
      Plus isWhiteSpace, Lit (js ''Tens'' @ [0xE3] @ js ''o=''), GroupPlus isVoltageChar,
      Lit (js ''V'')]"


section \<open>The parser\<close>

text \<open>
  The objects of \<^verbatim>\<open>parse\<close> as records with the property names of the source (\<open>id'\<close> for
  \<^verbatim>\<open>id\<close>).  A cell is pushed without \<^verbatim>\<open>individualVoltage\<close> and \<^verbatim>\<open>status\<close>, which the
  reconciliation assigns later: both are optional in \<open>Cell\<close>.  The three status strings are
  an enumeration.  The time stamp \<^verbatim>\<open>new Date()\<close> is an argument of \<open>parse\<close>.
\<close>

datatype status = good | warning | danger

definition getCellStatus :: "number \<Rightarrow> status" where
  "getCellStatus voltage =
     (let absVoltage = Math_abs voltage
      in if lt absVoltage (Num 0.1) then danger
         else if ge absVoltage (Num 3.0) \<and> le absVoltage (Num 4.3) then good
         else if gt absVoltage (Num 4.3) \<or> (gt absVoltage (Num 0.1) \<and> lt absVoltage (Num 2.5))
           then warning
         else good)"

record IndividualCell =
  name :: jsstring
  number :: number
  individualVoltage :: number
  status :: status

record Pin =
  pin :: jsstring
  cell :: jsstring
  cellNumber :: number
  raw :: number
  voltage :: number

record Module =
  id' :: number
  address :: jsstring
  pins :: "Pin list"

record Cell =
  name :: jsstring
  number :: number
  voltage :: number
  raw :: number
  module :: number
  pin :: jsstring
  individualVoltage :: "number option"
  status :: "status option"

text \<open>Reading a property that may be \<^verbatim>\<open>undefined\<close> as a number.\<close>

definition toNumber :: "number option \<Rightarrow> number" where
  "toNumber v = (case v of None \<Rightarrow> NaN | Some n \<Rightarrow> n)"

text \<open>
  The loop of \<^verbatim>\<open>calculateIndividualVoltages\<close>, which updates the cells in place, from index
  \<open>i\<close> on; \<open>subtract\<close> is the subtraction of doubles.
\<close>

function calculateLoop ::
    "(number \<Rightarrow> number \<Rightarrow> number) \<Rightarrow> nat \<Rightarrow> Cell list \<Rightarrow> Cell list" where
  "calculateLoop subtract i cells =
     (if i < length cells then
        let cells1 =
              (if i = 0
               then cells[i := (cells ! i)\<lparr>Cell.individualVoltage := Some (Cell.voltage (cells ! i))\<rparr>]
               else cells[i := (cells ! i)\<lparr>Cell.individualVoltage :=
                      Some (subtract (Cell.voltage (cells ! i))
                              (Cell.voltage (cells ! (i - 1))))\<rparr>]);
            cells2 = cells1[i := (cells1 ! i)\<lparr>Cell.status :=
                      Some (getCellStatus (toNumber (Cell.individualVoltage (cells1 ! i))))\<rparr>]
        in calculateLoop subtract (i + 1) cells2
      else cells)"
  by pat_completeness auto
termination
  by (relation "measure (\<lambda>(subtract, i, cells). length cells - i)") auto

declare calculateLoop.simps [simp del]

definition calculateIndividualVoltages ::
    "(number \<Rightarrow> number \<Rightarrow> number) \<Rightarrow> Cell list \<Rightarrow> Cell list" where
  "calculateIndividualVoltages subtract cells = calculateLoop subtract 0 cells"

record Data =
  timestamp :: nat
  totalVoltage :: number
  cellCount :: number
  cells :: "Cell list"
  individualCells :: "IndividualCell list"
  modules :: "Module list"

text \<open>The first loop over the lines: the individual-cells section.\<close>

fun individualCellsLoop :: "jsstring list \<Rightarrow> Data \<Rightarrow> Data" where
  "individualCellsLoop [] data = data"
| "individualCellsLoop (line # lines) data =
     (case match line individualCell_pattern of
        Some cellMatch \<Rightarrow>
          (let cellNumber = parseInt (cellMatch ! 1);
               voltage = parseFloat (cellMatch ! 2)
           in individualCellsLoop lines
                (data\<lparr>individualCells := individualCells data @
                   [\<lparr>IndividualCell.name = toString cellNumber @ js ''S'',
                     number = cellNumber,
                     individualVoltage = voltage,
                     status = getCellStatus voltage\<rparr>]\<rparr>))
      | None \<Rightarrow> individualCellsLoop lines data)"

text \<open>
  The second loop: module headers and pin lines.  The current module is pushed when the next
  header opens, or by \<open>parse\<close> at the end, with the pins it has collected by then.
\<close>

fun modulesLoop :: "jsstring list \<Rightarrow> Module option \<Rightarrow> Data \<Rightarrow> Module option \<times> Data" where
  "modulesLoop [] currentModule data = (currentModule, data)"
| "modulesLoop (line # lines) currentModule data =
     (case match line moduleHeader_pattern of
        Some moduleMatch \<Rightarrow>
          modulesLoop lines
            (Some \<lparr>id' = parseInt (moduleMatch ! 1), address = moduleMatch ! 2, pins = []\<rparr>)
            (case currentModule of
               Some m \<Rightarrow> data\<lparr>modules := modules data @ [m]\<rparr>
             | None \<Rightarrow> data)
      | None \<Rightarrow>
          (case (match line pinData_pattern, currentModule) of
             (Some pinMatch, Some m) \<Rightarrow>
               (let pin = \<lparr>Pin.pin = js ''A'' @ pinMatch ! 1,
                           cell = pinMatch ! 2 @ js ''S'',
                           cellNumber = parseInt (pinMatch ! 2),
                           raw = parseInt (pinMatch ! 3),
                           voltage = parseFloat (pinMatch ! 4)\<rparr>
                in modulesLoop lines (Some (m\<lparr>pins := pins m @ [pin]\<rparr>))
                     (data\<lparr>cells := cells data @
                        [\<lparr>Cell.name = Pin.cell pin,
                          number = Pin.cellNumber pin,
                          voltage = Pin.voltage pin,
                          raw = Pin.raw pin,
                          module = id' m,
                          pin = Pin.pin pin,
                          individualVoltage = None,
                          status = None\<rparr>]\<rparr>))
           | _ \<Rightarrow> modulesLoop lines currentModule data))"

text \<open>
  \<^verbatim>\<open>Array.prototype.sort\<close> with a comparator is stable: an element moves behind another only
  when the comparator is positive (\<^verbatim>\<open>NaN\<close> counts as zero).  It is modelled as insertion
  sort.
\<close>

fun insertBy :: "('a \<Rightarrow> 'a \<Rightarrow> number) \<Rightarrow> 'a \<Rightarrow> 'a list \<Rightarrow> 'a list" where
  "insertBy comparefn x [] = [x]"
| "insertBy comparefn x (y # ys) =
     (if gt (comparefn x y) (Num 0) then y # insertBy comparefn x ys else x # y # ys)"

definition sort' :: "('a \<Rightarrow> 'a \<Rightarrow> number) \<Rightarrow> 'a list \<Rightarrow> 'a list" where
  "sort' comparefn xs = foldr (insertBy comparefn) xs []"

text \<open>The body of the merge loop: \<^verbatim>\<open>find\<close> returns the first entry with the cell's number.\<close>

definition mergeIndividual :: "IndividualCell list \<Rightarrow> Cell \<Rightarrow> Cell" where
  "mergeIndividual ics = (\<lambda>cell.
      case find (\<lambda>ic. strictEquals (IndividualCell.number ic) (Cell.number cell)) ics of
        Some individualCell \<Rightarrow>
          cell\<lparr>Cell.individualVoltage := Some (IndividualCell.individualVoltage individualCell),
               Cell.status := Some (IndividualCell.status individualCell)\<rparr>
      | None \<Rightarrow>
          cell\<lparr>Cell.individualVoltage := Some (Num 0), Cell.status := Some danger\<rparr>)"

definition linesOf :: "jsstring \<Rightarrow> jsstring list" where
  "linesOf text = filter (\<lambda>line. line \<noteq> []) (map trim (split text [0xA]))"

definition parse :: "(number \<Rightarrow> number \<Rightarrow> number) \<Rightarrow> nat \<Rightarrow> jsstring \<Rightarrow> Data" where
  "parse subtract now text =
     (let data = \<lparr>timestamp = now, totalVoltage = Num 0, cellCount = Num 0, cells = [],
                  individualCells = [], modules = []\<rparr>;
          lines = linesOf text;
          data = (case match text totalVoltage_pattern of
                    Some totalMatch \<Rightarrow>
                      data\<lparr>cellCount := parseInt (totalMatch ! 1),
                           totalVoltage := parseFloat (totalMatch ! 2)\<rparr>
                  | None \<Rightarrow> data);
          data = individualCellsLoop lines data;
          (currentModule, data) = modulesLoop lines None data;
          data = (case currentModule of
                    Some m \<Rightarrow> data\<lparr>modules := modules data @ [m]\<rparr>
                  | None \<Rightarrow> data);
          data = data\<lparr>cells := sort' (\<lambda>a b. sub (Cell.number a) (Cell.number b)) (cells data)\<rparr>
      in if individualCells data \<noteq> []
         then data\<lparr>cells := map (mergeIndividual (individualCells data)) (cells data)\<rparr>
         else data\<lparr>cells := calculateIndividualVoltages subtract (cells data)\<rparr>)"

text \<open>
  A record with two low cumulative voltages and no individual-cells section, and a
  subtraction that agrees with the subtraction of doubles on its voltages: as doubles,
  0.3 - 0.2 is 0.09999999999999998.
\<close>

definition lowPins :: jsstring where
  "lowPins =
     js ''M'' @ [0xF3] @ js ''dulo 1 (0x48):'' @ [0xA] @
     js ''A0 (1S): RAW=1 Tens'' @ [0xE3] @ js ''o=0.2V'' @ [0xA] @
     js ''A1 (2S): RAW=2 Tens'' @ [0xE3] @ js ''o=0.3V''"

definition subtractRounded :: "number \<Rightarrow> number \<Rightarrow> number" where
  "subtractRounded a b =
     (if a = Num 0.3 \<and> b = Num 0.2 then Num 0.09999999999999998 else sub a b)"

text \<open>The record of the end-to-end example.\<close>

definition example :: jsstring where
  "example =
     js ''BATERIA TOTAL (2S): 7.95V'' @ [0xA] @
     js ''Cel 1: 3.96V'' @ [0xA] @
     js ''Cel 2: 3.99V'' @ [0xA] @
     js ''M'' @ [0xF3] @ js ''dulo 1 (0x48):'' @ [0xA] @
     js ''  A0 (1S): RAW=22645  Tens'' @ [0xE3] @ js ''o=3.963V'' @ [0xA] @
     js ''  A1 (2S): RAW=22723  Tens'' @ [0xE3] @ js ''o=7.953V''"

text \<open>The entry that the first loop pushes for a line, if the line matches.\<close>

definition individualCellOf :: "jsstring \<Rightarrow> IndividualCell option" where
  "individualCellOf line =
     map_option
       (\<lambda>cellMatch.
          \<lparr>IndividualCell.name = toString (parseInt (cellMatch ! 1)) @ js ''S'',
           number = parseInt (cellMatch ! 1),
           individualVoltage = parseFloat (cellMatch ! 2),
           status = getCellStatus (parseFloat (cellMatch ! 2))\<rparr>)
       (match line individualCell_pattern)"

text \<open>The character classes of the capture groups of a pattern, and what a group holds.\<close>

fun groupClasses :: "atom list \<Rightarrow> (jschar \<Rightarrow> bool) list" where
  "groupClasses [] = []"
| "groupClasses (Lit l # as) = groupClasses as"
| "groupClasses (Plus c # as) = groupClasses as"
| "groupClasses (GroupPlus c # as) = c # groupClasses as"

definition captured :: "(jschar \<Rightarrow> bool) \<Rightarrow> jsstring \<Rightarrow> bool" where
  "captured c g = (g \<noteq> [] \<and> (\<forall>x\<in>set g. c x))"


text \<open>A number that is a natural number, as \<^verbatim>\<open>parseInt\<close> returns for a run of digits.\<close>

definition isNat :: "number \<Rightarrow> bool" where
  "isNat n = (\<exists>k::nat. n = Num (real k))"


text \<open>
  The differential voltage of the cell at position \<open>k\<close> of a list of cells: its cumulative
  voltage, less (by the subtraction of doubles) that of the cell in front of it when there
  is one.
\<close>

definition differential :: "(number \<Rightarrow> number \<Rightarrow> number) \<Rightarrow> Cell list \<Rightarrow> nat \<Rightarrow> number" where
  "differential subtract cs k =
     (if k = 0 then Cell.voltage (cs ! 0)
      else subtract (Cell.voltage (cs ! k)) (Cell.voltage (cs ! (k - 1))))"

text \<open>
  Records used below: a module with the cells out of order and a second module that repeats
  cell 2, without an individual-cells section; and a record whose individual-cells section
  names cell 1 twice.
\<close>

definition modulesOnly :: jsstring where
  "modulesOnly =
     js ''M'' @ [0xF3] @ js ''dulo 1 (0x48):'' @ [0xA] @
     js ''A0 (2S): RAW=9 Tens'' @ [0xE3] @ js ''o=7.5V'' @ [0xA] @
     js ''A1 (1S): RAW=8 Tens'' @ [0xE3] @ js ''o=3.5V'' @ [0xA] @
     js ''M'' @ [0xF3] @ js ''dulo 2 (0x49):'' @ [0xA] @
     js ''A0 (2S): RAW=7 Tens'' @ [0xE3] @ js ''o=7.0V''"

definition repeatedCell :: jsstring where
  "repeatedCell =
     js ''Cel 1: 3.5V'' @ [0xA] @
     js ''Cel 1: 4.5V'' @ [0xA] @
     js ''M'' @ [0xF3] @ js ''dulo 1 (0x48):'' @ [0xA] @
     js ''A0 (1S): RAW=5 Tens'' @ [0xE3] @ js ''o=3.5V''"


section \<open>The framer: splitting and the buffer\<close>

lemma split_nonempty: "sep \<noteq> [] \<Longrightarrow> split s sep \<noteq> []"
  by (subst split.simps) (simp split: option.splits)

lemma indexOf_append: "indexOf s pat = Some j \<Longrightarrow> indexOf (s @ t) pat = Some j"
proof (induction s arbitrary: j)
  case Nil
  then show ?case by (cases t) (auto split: if_splits)
next
  case (Cons c cs)
  show ?case
  proof (cases "prefix pat (c # cs)")
    case True
    then have "prefix pat ((c # cs) @ t)" by (rule prefix_prefix)
    with True Cons.prems show ?thesis by simp
  next
    case False
    with Cons.prems obtain k where k: "indexOf cs pat = Some k" "j = Suc k"
      by auto
    then have "k + length pat \<le> length cs" by (simp add: indexOf_bound)
    then have "length pat \<le> length (c # cs)" by simp
    with False have "\<not> prefix pat ((c # cs) @ t)"
      by (metis prefix_length_prefix prefixI)
    with k Cons.IH show ?thesis by simp
  qed
qed

lemma split_append:
  assumes "sep \<noteq> []"
  shows "split (a @ b) sep = butlast (split a sep) @ split (last (split a sep) @ b) sep"
  using assms
proof (induction a sep rule: split.induct)
  case (1 s sep)
  show ?case
  proof (cases "indexOf s sep")
    case None
    with 1 have "split s sep = [s]" by (subst split.simps) simp
    then show ?thesis by simp
  next
    case (Some j)
    let ?rest = "drop (j + length sep) s"
    from Some 1 have s: "split s sep = take j s # split ?rest sep"
      by (subst split.simps) simp
    from Some have b: "j + length sep \<le> length s" by (rule indexOf_bound)
    from Some have "indexOf (s @ b) sep = Some j" by (rule indexOf_append)
    with 1 have "split (s @ b) sep = take j (s @ b) # split (drop (j + length sep) (s @ b)) sep"
      by (subst split.simps) simp
    also from b have "\<dots> = take j s # split (?rest @ b) sep" by simp
    also from 1 Some have "split (?rest @ b) sep =
        butlast (split ?rest sep) @ split (last (split ?rest sep) @ b) sep"
      by simp
    finally show ?thesis using s split_nonempty [OF 1(2), of ?rest] by simp
  qed
qed

lemma indexOf_last_split:
  "sep \<noteq> [] \<Longrightarrow> indexOf (last (split s sep)) sep = None"
proof (induction s sep rule: split.induct)
  case (1 s sep)
  show ?case
  proof (cases "indexOf s sep")
    case None
    with 1 have "split s sep = [s]" by (subst split.simps) simp
    with None show ?thesis by simp
  next
    case (Some j)
    with 1 have "split s sep = take j s # split (drop (j + length sep) s) sep"
      by (subst split.simps) simp
    with 1 Some split_nonempty [OF 1(2), of "drop (j + length sep) s"] show ?thesis by simp
  qed
qed

lemma indexOf_None_no_occurrence:
  "indexOf s pat = None \<Longrightarrow> s \<noteq> u @ pat @ v"
proof (induction s arbitrary: u)
  case Nil
  then show ?case by (auto split: if_splits)
next
  case (Cons c cs)
  from Cons.prems have np: "\<not> prefix pat (c # cs)" and t: "indexOf cs pat = None"
    by (auto split: if_splits)
  show ?case
  proof (cases u)
    case Nil
    with np show ?thesis by (auto simp: prefix_def)
  next
    case u: (Cons x u')
    with Cons.IH [OF t, of u'] show ?thesis by auto
  qed
qed


lemma separator_nonempty: "separator \<noteq> []"
  by (simp add: separator_def)

lemma separator_Cons: "separator = 0x3D # replicate 57 0x3D"
  by (simp add: separator_def numeral_eq_Suc)

lemma prefix_indexOf: "prefix pat s \<Longrightarrow> indexOf s pat = Some 0"
  by (cases s) simp_all

lemma indexOf_plain: "0x3D \<notin> set s \<Longrightarrow> indexOf s separator = None"
  by (induction s) (auto simp: separator_Cons)

lemma indexOf_plain_separator:
  "0x3D \<notin> set s \<Longrightarrow> indexOf (s @ separator @ t) separator = Some (length s)"
proof (induction s)
  case Nil
  show ?case by (simp add: prefix_indexOf)
next
  case (Cons c cs)
  then have "\<not> prefix separator (c # cs @ separator @ t)"
    by (simp add: separator_Cons)
  with Cons show ?case by simp
qed

lemma split_plain: "0x3D \<notin> set s \<Longrightarrow> split s separator = [s]"
  by (subst split.simps) (simp add: indexOf_plain separator_nonempty)

lemma split_plain_separator:
  "0x3D \<notin> set s \<Longrightarrow> split (s @ separator @ t) separator = s # split t separator"
  by (subst split.simps) (simp add: indexOf_plain_separator separator_nonempty)

lemma trim_plain: "\<forall>c\<in>set s. \<not> isWhiteSpace c \<Longrightarrow> trim s = s"
proof -
  have d: "dropWhile P xs = xs" if "\<forall>x\<in>set xs. \<not> P x" for P and xs :: jsstring
    using that by (cases xs) simp_all
  assume "\<forall>c\<in>set s. \<not> isWhiteSpace c"
  then show ?thesis by (simp add: trim_def d)
qed

lemma fst_processData:
  "fst (processData this chunk) =
     filter (\<lambda>reading. reading \<noteq> [] \<and> onDataCallback this)
       (map trim (butlast (split (buffer this @ chunk) separator)))"
  by (simp add: processData_def Let_def)

lemma buffer_processData:
  "buffer (snd (processData this chunk)) =
     (let b = last (split (buffer this @ chunk) separator)
      in if length b > 10000 then [] else b)"
  by (simp add: processData_def Let_def)

lemma callback_processData:
  "onDataCallback (snd (processData this chunk)) = onDataCallback this"
  by (simp add: processData_def Let_def)

lemma indexOf_buffer_processData:
  "indexOf (buffer (snd (processData this chunk))) separator = None"
  by (simp add: buffer_processData Let_def indexOf_last_split separator_nonempty
      separator_Cons)

lemma indexOf_buffer_feed:
  "indexOf (buffer this) separator = None \<Longrightarrow>
   indexOf (buffer (snd (feed this chunks))) separator = None"
  by (induction chunks arbitrary: this)
    (simp_all add: split_beta indexOf_buffer_processData)

lemma length_buffer_feed:
  "length (buffer this) \<le> 10000 \<Longrightarrow> length (buffer (snd (feed this chunks))) \<le> 10000"
  by (induction chunks arbitrary: this)
    (simp_all add: split_beta buffer_processData Let_def)

lemma feed_concat:
  "indexOf (buffer this) separator = None \<Longrightarrow> neverClears this chunks \<Longrightarrow>
   fst (feed this chunks) = fst (processData this (concat chunks))"
proof (induction chunks arbitrary: this)
  case Nil
  then have "split (buffer this) separator = [buffer this]"
    by (subst split.simps) (simp add: separator_nonempty)
  then show ?case by (simp add: fst_processData)
next
  case (Cons chunk chunks)
  let ?this' = "snd (processData this chunk)"
  let ?parts = "split (buffer this @ chunk) separator"
  from Cons.prems have keep: "buffer ?this' = last ?parts"
    by (simp add: buffer_processData Let_def)
  from Cons.prems have "neverClears ?this' chunks" by simp
  with Cons.IH [of ?this'] have
    "fst (feed ?this' chunks) = fst (processData ?this' (concat chunks))"
    by (simp add: indexOf_buffer_processData)
  moreover have "split (buffer this @ chunk @ concat chunks) separator =
      butlast ?parts @ split (last ?parts @ concat chunks) separator"
    using split_append [OF separator_nonempty, of "buffer this @ chunk" "concat chunks"]
    by simp
  ultimately show ?case
    using split_nonempty [OF separator_nonempty, of "last ?parts @ concat chunks"]
    by (simp add: split_beta fst_processData keep callback_processData butlast_append)
qed

lemma indexOf_short: "length s < length pat \<Longrightarrow> indexOf s pat = None"
  by (cases "indexOf s pat") (auto dest: indexOf_bound)

section \<open>Claims about the framer\<close>

text \<open>
  C1, as the code has it: starting from an empty buffer, when no call of the chunked run
  clears the buffer (the piece kept by each call has at most 10000 code units), the readings
  delivered over all the calls are, in order, the readings delivered by one call on the
  concatenation of the chunks.
\<close>

theorem feed_chunks:
  assumes "buffer this = []" and "neverClears this chunks"
  shows "fst (feed this chunks) = fst (processData this (concat chunks))"
proof -
  from assms(1) have "indexOf (buffer this) separator = None"
    by (simp add: separator_nonempty)
  from this assms(2) show ?thesis by (rule feed_concat)
qed

text \<open>
  The chunks \<open>a\<close> followed by thirty \<open>=\<close>, and twenty-eight \<open>=\<close> followed by \<open>b=\<close>: the separator
  straddles the chunk boundary, and both ways of feeding deliver the one reading \<open>a\<close>.
\<close>

theorem feed_chunks_witness:
  "buffer (onData constructor) = [] \<and>
   neverClears (onData constructor) [0x61 # replicate 30 0x3D, replicate 28 0x3D @ [0x62, 0x3D]] \<and>
   fst (feed (onData constructor) [0x61 # replicate 30 0x3D, replicate 28 0x3D @ [0x62, 0x3D]]) = [[0x61]] \<and>
   fst (processData (onData constructor)
     (concat [0x61 # replicate 30 0x3D, replicate 28 0x3D @ [0x62, 0x3D]])) = [[0x61]]"
proof -
  have b: "buffer (onData constructor) = []" "onDataCallback (onData constructor)"
    by (simp_all add: onData_def constructor_def)
  have "indexOf (0x61 # replicate 30 0x3D) separator = None"
    by (rule indexOf_short) (simp add: separator_def)
  then have s1: "split (0x61 # replicate 30 0x3D) separator = [0x61 # replicate 30 0x3D]"
    by (subst split.simps) (simp add: separator_nonempty)
  have c: "replicate 30 0x3D @ replicate 28 0x3D @ t = separator @ t" for t :: jsstring
    by (simp add: separator_def flip: replicate_add append_assoc)
  have "indexOf [0x62, 0x3D] separator = None"
    by (rule indexOf_short) (simp add: separator_def)
  then have "split [0x62, 0x3D] separator = [[0x62, 0x3D]]"
    by (subst split.simps) (simp add: separator_nonempty)
  then have s2: "split (0x61 # separator @ [0x62, 0x3D]) separator = [[0x61], [0x62, 0x3D]]"
    using split_plain_separator [of "[0x61]" "[0x62, 0x3D]"] by simp
  have t: "trim [0x61] = [0x61]"
    by (simp add: trim_def isWhiteSpace_def)
  have p1: "processData (onData constructor) (0x61 # replicate 30 0x3D) =
     ([], (onData constructor)\<lparr>buffer := 0x61 # replicate 30 0x3D\<rparr>)"
    using s1 by (simp add: processData_def b)
  have n: "neverClears (onData constructor) [0x61 # replicate 30 0x3D, replicate 28 0x3D @ [0x62, 0x3D]]"
    using s1 s2 by (simp add: b p1 c)
  have w: "fst (processData (onData constructor)
     (concat [0x61 # replicate 30 0x3D, replicate 28 0x3D @ [0x62, 0x3D]])) = [[0x61]]"
    using s2 by (simp add: fst_processData b t c)
  from feed_chunks [OF b(1) n] b(1) n w show ?thesis by simp
qed

text \<open>
  C1 as stated fails once a call clears the buffer: after a chunk of 10001 letters \<open>a\<close> the
  buffer is dropped, so the chunk \<open>b\<close> and a separator delivers \<open>b\<close>, while the
  concatenation fed at once delivers the 10001 letters followed by \<open>b\<close>.
\<close>

theorem feed_chunks_counterexample:
  "fst (feed (onData constructor) [replicate 10001 0x61, [0x62] @ separator]) \<noteq>
   fst (processData (onData constructor) (concat [replicate 10001 0x61, [0x62] @ separator]))"
proof -
  have b: "buffer (onData constructor) = []" "onDataCallback (onData constructor)"
    by (simp_all add: onData_def constructor_def)
  have s0: "split [] separator = [[]]"
    by (simp add: split_plain)
  have s1: "split (replicate 10001 0x61) separator = [replicate 10001 0x61]"
    by (simp add: split_plain)
  have s2: "split ([0x62] @ separator) separator = [[0x62], []]"
    using split_plain_separator [of "[0x62]" "[]"] by (simp add: s0)
  have "0x3D \<notin> set (replicate 10001 0x61 @ [0x62 :: jschar])" by simp
  from split_plain_separator [OF this, of "[]"] 
  have s3: "split (replicate 10001 0x61 @ [0x62] @ separator) separator = [replicate 10001 0x61 @ [0x62], []]"
    by (simp add: s0)
  have t: "trim [0x62] = [0x62]"
    by (simp add: trim_def isWhiteSpace_def)
  have "\<forall>c\<in>set (replicate 10001 0x61 @ [0x62 :: jschar]). \<not> isWhiteSpace c"
    by (auto simp: isWhiteSpace_def)
  then have t': "trim (replicate 10001 0x61 @ [0x62]) = replicate 10001 0x61 @ [0x62]"
    by (rule trim_plain)
  have one: "processData (onData constructor) (replicate 10001 0x61) =
      ([], onData constructor)"
    using s1 by (simp add: processData_def b onData_def constructor_def)
  have two: "fst (processData (onData constructor) ([0x62] @ separator)) = [[0x62]]"
    using s2 by (simp add: fst_processData b t)
  have whole: "fst (processData (onData constructor) (replicate 10001 0x61 @ [0x62] @ separator)) =
      [replicate 10001 0x61 @ [0x62]]"
    using s3 t' by (simp add: fst_processData b)
  have "fst (feed (onData constructor) [replicate 10001 0x61, [0x62] @ separator]) = [[0x62]]"
    using one two by (simp add: split_beta)
  moreover have "length (replicate 10001 0x61 @ [0x62 :: jschar]) \<noteq> length [0x62 :: jschar]"
    by simp
  then have "[replicate 10001 0x61 @ [0x62]] \<noteq> [[0x62 :: jschar]]"
    by fastforce
  ultimately show ?thesis using whole by simp
qed

text \<open>
  C7, as the code has it: the cap is tested on the piece kept behind the last separator, not
  on the buffer with the chunk appended.  When that piece has more than 10000 code units the
  buffer becomes empty, and the readings delivered by the call are still the trimmed,
  non-empty pieces in front of the separators, in order (none when no callback is
  registered).
\<close>

theorem processData_cap:
  assumes "length (last (split (buffer this @ chunk) separator)) > 10000"
  shows "buffer (snd (processData this chunk)) = [] \<and>
         fst (processData this chunk) =
           filter (\<lambda>reading. reading \<noteq> [] \<and> onDataCallback this)
             (map trim (butlast (split (buffer this @ chunk) separator)))"
  using assms by (simp add: buffer_processData fst_processData)

text \<open>
  The chunk \<open>x\<close>, a separator and 10001 letters \<open>a\<close>: the reading \<open>x\<close> is delivered and the
  buffer is cleared.
\<close>

theorem processData_cap_witness:
  "length (last (split (buffer (onData constructor) @ ([0x78] @ separator @ replicate 10001 0x61))
      separator)) > 10000 \<and>
   buffer (snd (processData (onData constructor) ([0x78] @ separator @ replicate 10001 0x61))) = [] \<and>
   fst (processData (onData constructor) ([0x78] @ separator @ replicate 10001 0x61)) = [[0x78]]"
proof -
  have s: "split ([0x78] @ separator @ replicate 10001 0x61) separator = [[0x78], replicate 10001 0x61]"
    using split_plain_separator [of "[0x78]" "replicate 10001 0x61"]
    by (simp add: split_plain)
  have b: "buffer (onData constructor) = []" "onDataCallback (onData constructor)"
    by (simp_all add: onData_def constructor_def)
  have h: "length (last (split (buffer (onData constructor) @ ([0x78] @ separator @ replicate 10001 0x61))
      separator)) > 10000"
    using s by (simp add: b)
  have t: "trim [0x78] = [0x78]"
    by (simp add: trim_def isWhiteSpace_def)
  from processData_cap [OF h] h show ?thesis
    using s by (simp add: b t)
qed

text \<open>
  C7 as stated fails: with 9990 letters \<open>a\<close>, a separator and \<open>b\<close> the buffer with the chunk
  appended has 10049 code units, and the buffer kept is \<open>b\<close>, not the empty string.
\<close>

theorem processData_cap_counterexample:
  "length (buffer (onData constructor) @ (replicate 9990 0x61 @ separator @ [0x62])) > 10000 \<and>
   buffer (snd (processData (onData constructor) (replicate 9990 0x61 @ separator @ [0x62]))) \<noteq> []"
proof -
  have "split (replicate 9990 0x61 @ separator @ [0x62]) separator = [replicate 9990 0x61, [0x62]]"
    by (simp add: split_plain_separator split_plain)
  then show ?thesis
    by (simp add: buffer_processData onData_def constructor_def separator_def)
qed

text \<open>
  C10: the buffer kept by \<^verbatim>\<open>processData\<close> holds no occurrence of the separator and
  at most 10000 code units.  This is so for the empty buffer of a new reader, after a call
  on any reader and any chunk, and hence after any sequence of calls.
\<close>

theorem processData_buffer_invariant:
  "((\<forall>u v. buffer constructor \<noteq> u @ separator @ v) \<and> length (buffer constructor) \<le> 10000) \<and>
   ((\<forall>u v. buffer (snd (processData this chunk)) \<noteq> u @ separator @ v) \<and>
    length (buffer (snd (processData this chunk))) \<le> 10000) \<and>
   ((\<forall>u v. buffer (snd (feed constructor chunks)) \<noteq> u @ separator @ v) \<and>
    length (buffer (snd (feed constructor chunks))) \<le> 10000)"
proof -
  have init: "indexOf (buffer constructor) separator = None" "length (buffer constructor) \<le> 10000"
    by (simp_all add: constructor_def separator_nonempty)
  have "length (buffer (snd (processData this chunk))) \<le> 10000"
    by (simp add: buffer_processData Let_def)
  with init show ?thesis
    using indexOf_None_no_occurrence [OF indexOf_buffer_processData]
      indexOf_None_no_occurrence [OF indexOf_buffer_feed [OF init(1)]]
      length_buffer_feed [OF init(2)]
    by (auto simp: constructor_def separator_nonempty)
qed

section \<open>The parser: what the patterns capture\<close>

lemma backtrack_Some:
  "backtrack f n = Some r \<Longrightarrow> \<exists>k. 0 < k \<and> k \<le> n \<and> f k = Some r"
proof (induction n)
  case 0
  then show ?case by simp
next
  case (Suc n)
  show ?case
  proof (cases "f (Suc n)")
    case None
    with Suc show ?thesis by (auto intro: le_SucI)
  next
    case (Some a)
    with Suc.prems show ?thesis by auto
  qed
qed

lemma take_run_captured:
  assumes "0 < k" "k \<le> length (takeWhile c s)"
  shows "captured c (take k s)"
proof -
  have "take k s = take k (takeWhile c s @ dropWhile c s)" by simp
  also from assms(2) have "\<dots> = take k (takeWhile c s)" by (simp del: takeWhile_dropWhile_id)
  finally have eq: "take k s = take k (takeWhile c s)" .
  have "set (take k (takeWhile c s)) \<subseteq> set (takeWhile c s)" by (rule set_take_subset)
  then have "\<forall>x\<in>set (take k (takeWhile c s)). c x" by (auto dest: set_takeWhileD)
  moreover from assms have "take k (takeWhile c s) \<noteq> []" by auto
  ultimately show ?thesis by (simp add: captured_def eq)
qed

lemma matchHere_groups:
  "matchHere as s = Some (gs, r) \<Longrightarrow> list_all2 captured (groupClasses as) gs"
proof (induction as arbitrary: s gs r)
  case Nil
  then show ?case by simp
next
  case (Cons a as)
  show ?case
  proof (cases a)
    case (Lit l)
    with Cons.prems have "matchHere as (drop (length l) s) = Some (gs, r)"
      by (simp split: if_splits)
    with Cons.IH Lit show ?thesis by simp
  next
    case (Plus c)
    with Cons.prems obtain k where "matchHere as (drop k s) = Some (gs, r)"
      by (auto dest: backtrack_Some)
    with Cons.IH Plus show ?thesis by simp
  next
    case (GroupPlus c)
    with Cons.prems obtain k where k: "0 < k" "k \<le> length (takeWhile c s)"
      and m: "map_option (\<lambda>(groups, rest). (take k s # groups, rest)) (matchHere as (drop k s))
               = Some (gs, r)"
      by (auto dest!: backtrack_Some)
    from m obtain gs' where "matchHere as (drop k s) = Some (gs', r)" "gs = take k s # gs'"
      by auto
    with Cons.IH GroupPlus take_run_captured [OF k] show ?thesis by simp
  qed
qed

lemma match_groups:
  "match s regex = Some m \<Longrightarrow> \<exists>w gs. m = w # gs \<and> list_all2 captured (groupClasses regex) gs"
proof (induction s regex rule: match.induct)
  case (1 s regex)
  show ?case
  proof (cases "matchHere regex s")
    case None
    with "1.prems" obtain c cs where "s = c # cs" "match cs regex = Some m"
      by (subst (asm) match.simps) (auto split: list.splits)
    with None "1.IH" show ?thesis by simp
  next
    case (Some a)
    obtain gs r where "a = (gs, r)" by (cases a)
    with Some "1.prems" matchHere_groups [of regex s gs r] show ?thesis
      by (subst (asm) match.simps) auto
  qed
qed

lemma isDigit_not_minus: "isDigit c \<Longrightarrow> c \<noteq> 0x2D"
  by (auto simp: isDigit_def)

lemma parseInt_digits:
  assumes "captured isDigit g"
  shows "parseInt g = Num (real (digitsValue g))"
proof -
  from assms have ne: "g \<noteq> []" and d: "\<forall>x\<in>set g. isDigit x"
    by (simp_all add: captured_def)
  then have "isDigit (hd g)" by simp
  then have "hd g \<noteq> 0x2D" by (rule isDigit_not_minus)
  with ne d show ?thesis
    by (simp add: parseInt_def Let_def takeWhile_eq_all_conv [THEN iffD2])
qed

lemma match_pinData:
  assumes "match line pinData_pattern = Some m"
  shows "\<exists>k. parseInt (m ! 2) = Num (real k)"
proof -
  have "groupClasses pinData_pattern = [isDigit, isDigit, isRawChar, isVoltageChar]"
    by (simp add: pinData_pattern_def)
  with match_groups [OF assms] obtain w gs where
    "m = w # gs" "list_all2 captured [isDigit, isDigit, isRawChar, isVoltageChar] gs"
    by auto
  then have "captured isDigit (m ! 2)"
    by (auto simp: list_all2_Cons1)
  then show ?thesis by (auto dest: parseInt_digits)
qed

lemma match_individualCell:
  assumes "match line individualCell_pattern = Some m"
  shows "\<exists>k. parseInt (m ! 1) = Num (real k)"
proof -
  have "groupClasses individualCell_pattern = [isDigit, isVoltageChar]"
    by (simp add: individualCell_pattern_def)
  with match_groups [OF assms] obtain w gs where
    "m = w # gs" "list_all2 captured [isDigit, isVoltageChar] gs"
    by auto
  then have "captured isDigit (m ! 1)"
    by (auto simp: list_all2_Cons1)
  then show ?thesis by (auto dest: parseInt_digits)
qed

lemma modulesLoop_cells_isNat:
  "\<forall>c\<in>set (cells data). isNat (Cell.number c) \<Longrightarrow>
   \<forall>c\<in>set (cells (snd (modulesLoop lines cur data))). isNat (Cell.number c)"
proof (induction lines arbitrary: cur data)
  case Nil
  then show ?case by simp
next
  case (Cons line lines)
  show ?case
  proof (cases "match line moduleHeader_pattern")
    case (Some moduleMatch)
    from Cons.prems have "\<forall>c\<in>set (cells (case cur of None \<Rightarrow> data
        | Some m \<Rightarrow> data\<lparr>modules := modules data @ [m]\<rparr>)). isNat (Cell.number c)"
      by (simp split: option.splits)
    from Cons.IH [OF this] Some show ?thesis by simp
  next
    case None
    show ?thesis
    proof (cases "match line pinData_pattern")
      case n: None
      with None Cons.IH [OF Cons.prems] show ?thesis by simp
    next
      case (Some pinMatch)
      show ?thesis
      proof (cases cur)
        case n: None
        with None Some Cons.IH [OF Cons.prems] show ?thesis by simp
      next
        case s: (Some m)
        from match_pinData [OF Some] have "isNat (parseInt (pinMatch ! 2))"
          by (simp add: isNat_def)
        with Cons.prems have "\<forall>c\<in>set (cells data @
            [\<lparr>Cell.name = pinMatch ! 2 @ js ''S'', number = parseInt (pinMatch ! 2),
              voltage = parseFloat (pinMatch ! 4), raw = parseInt (pinMatch ! 3),
              module = id' m, pin = js ''A'' @ pinMatch ! 1, individualVoltage = None,
              status = None\<rparr>]). isNat (Cell.number c)"
          by simp
        then have "\<forall>c\<in>set (cells (data\<lparr>cells := cells data @
            [\<lparr>Cell.name = pinMatch ! 2 @ js ''S'', number = parseInt (pinMatch ! 2),
              voltage = parseFloat (pinMatch ! 4), raw = parseInt (pinMatch ! 3),
              module = id' m, pin = js ''A'' @ pinMatch ! 1, individualVoltage = None,
              status = None\<rparr>]\<rparr>)). isNat (Cell.number c)"
          by simp
        from Cons.IH [OF this] None Some s show ?thesis
          by (simp add: Let_def)
      qed
    qed
  qed
qed

lemma modulesLoop_individualCells:
  "individualCells (snd (modulesLoop lines cur data)) = individualCells data"
  by (induction lines arbitrary: cur data) (simp_all add: Let_def split: option.splits)

lemma individualCellsLoop_cells:
  "cells (individualCellsLoop lines data) = cells data"
  by (induction lines arbitrary: data) (simp_all add: Let_def split: option.splits)

section \<open>The parser: sorting and reconciliation\<close>

lemma gt_sub_Num: "gt (Num (a - b)) (Num 0) \<longleftrightarrow> b < a"
  by (simp add: gt_def)

lemma isNat_Num: "isNat n \<Longrightarrow> \<exists>a. n = Num a"
  by (auto simp: isNat_def)

lemma set_insertBy: "set (insertBy f x ys) = insert x (set ys)"
  by (induction ys) auto

lemma set_sort': "set (sort' f xs) = set xs"
  by (induction xs) (simp_all add: sort'_def set_insertBy)

lemma sorted_insertBy:
  assumes "isNat (k x)" "\<forall>y\<in>set ys. isNat (k y)"
    and "sorted_wrt (\<lambda>a b. le (k a) (k b)) ys"
  shows "sorted_wrt (\<lambda>a b. le (k a) (k b)) (insertBy (\<lambda>a b. sub (k a) (k b)) x ys)"
  using assms(2,3)
proof (induction ys)
  case Nil
  then show ?case by simp
next
  case (Cons y ys)
  from assms(1) obtain a where a: "k x = Num a" by (auto dest: isNat_Num)
  from Cons.prems obtain b where b: "k y = Num b" by (auto dest: isNat_Num)
  show ?case
  proof (cases "b < a")
    case True
    with a b Cons show ?thesis
      by (auto simp: gt_sub_Num set_insertBy)
  next
    case False
    have "le (k x) (k z)" if "z \<in> set ys" for z
    proof -
      from that Cons.prems have "isNat (k z)" by simp
      then obtain c where c: "k z = Num c" by (auto dest: isNat_Num)
      from that Cons.prems have "le (k y) (k z)" by simp
      with a b c False show ?thesis by simp
    qed
    with a b False Cons.prems show ?thesis
      by (auto simp: gt_sub_Num)
  qed
qed

lemma sorted_sort':
  "\<forall>y\<in>set xs. isNat (k y) \<Longrightarrow>
   sorted_wrt (\<lambda>a b. le (k a) (k b)) (sort' (\<lambda>a b. sub (k a) (k b)) xs)"
proof (induction xs)
  case Nil
  then show ?case by (simp add: sort'_def)
next
  case (Cons x xs)
  then have "sorted_wrt (\<lambda>a b. le (k a) (k b)) (sort' (\<lambda>a b. sub (k a) (k b)) xs)"
    by simp
  with Cons.prems sorted_insertBy [of k x "sort' (\<lambda>a b. sub (k a) (k b)) xs"]
  have "sorted_wrt (\<lambda>a b. le (k a) (k b))
          (insertBy (\<lambda>a b. sub (k a) (k b)) x (sort' (\<lambda>a b. sub (k a) (k b)) xs))"
    by (simp add: set_sort')
  then show ?case by (simp add: sort'_def)
qed

lemma individualCellsLoop_individualCells:
  "individualCells (individualCellsLoop lines data) =
     individualCells data @ List.map_filter individualCellOf lines"
  by (induction lines arbitrary: data)
    (simp_all add: Let_def individualCellOf_def split: option.splits)

text \<open>
  The shape of the result: \<open>pinCells\<close> are the cells collected from the pin lines, in
  record order.
\<close>

lemma parse_shape:
  obtains pinCells where
    "\<forall>c\<in>set pinCells. isNat (Cell.number c)"
    "individualCells (parse subtract now text) = List.map_filter individualCellOf (linesOf text)"
    "cells (parse subtract now text) =
       (if individualCells (parse subtract now text) \<noteq> []
        then map (mergeIndividual (individualCells (parse subtract now text)))
               (sort' (\<lambda>a b. sub (Cell.number a) (Cell.number b)) pinCells)
        else calculateIndividualVoltages subtract
               (sort' (\<lambda>a b. sub (Cell.number a) (Cell.number b)) pinCells))"
proof -
  define data0 where "data0 =
    \<lparr>timestamp = now, totalVoltage = Num 0, cellCount = Num 0, cells = [],
     individualCells = [], modules = []\<rparr>"
  define data1 where "data1 =
    (case match text totalVoltage_pattern of
       Some totalMatch \<Rightarrow>
         data0\<lparr>cellCount := parseInt (totalMatch ! 1),
               totalVoltage := parseFloat (totalMatch ! 2)\<rparr>
     | None \<Rightarrow> data0)"
  define data2 where "data2 = individualCellsLoop (linesOf text) data1"
  define pinCells where "pinCells = cells (snd (modulesLoop (linesOf text) None data2))"
  have d1: "cells data1 = []" "individualCells data1 = []"
    by (simp_all add: data1_def data0_def split: option.splits)
  have c2: "cells data2 = []"
    by (simp add: data2_def individualCellsLoop_cells d1)
  have i2: "individualCells data2 = List.map_filter individualCellOf (linesOf text)"
    by (simp add: data2_def individualCellsLoop_individualCells d1)
  have "\<forall>c\<in>set (cells data2). isNat (Cell.number c)"
    by (simp add: c2)
  then have 1: "\<forall>c\<in>set pinCells. isNat (Cell.number c)"
    unfolding pinCells_def by (rule modulesLoop_cells_isNat)
  have i3: "individualCells (snd (modulesLoop (linesOf text) None data2)) =
      List.map_filter individualCellOf (linesOf text)"
    by (simp add: modulesLoop_individualCells i2)
  have 2: "individualCells (parse subtract now text) = List.map_filter individualCellOf (linesOf text)"
    using i3
    by (simp add: parse_def split_beta Let_def data2_def data1_def data0_def
        split: option.splits)
  have 3: "cells (parse subtract now text) =
       (if individualCells (parse subtract now text) \<noteq> []
        then map (mergeIndividual (individualCells (parse subtract now text)))
               (sort' (\<lambda>a b. sub (Cell.number a) (Cell.number b)) pinCells)
        else calculateIndividualVoltages subtract
               (sort' (\<lambda>a b. sub (Cell.number a) (Cell.number b)) pinCells))"
    unfolding 2 using i3
    by (simp add: parse_def split_beta Let_def pinCells_def data2_def data1_def data0_def
        split: option.splits)
  from 1 2 3 show thesis by (rule that)
qed


lemma calculateLoop_nth:
  "k < length cs \<Longrightarrow>
   calculateLoop subtract i cs ! k =
     (if k < i then cs ! k
      else (cs ! k)\<lparr>Cell.individualVoltage := Some (differential subtract cs k),
                        Cell.status := Some (getCellStatus (differential subtract cs k))\<rparr>)"
proof (induction subtract i cs arbitrary: k rule: calculateLoop.induct)
  case (1 subtract i cs)
  show ?case
  proof (cases "i < length cs")
    case False
    with "1.prems" show ?thesis by (subst calculateLoop.simps) simp
  next
    case True
    define cs2 where "cs2 =
      cs[i := (cs ! i)\<lparr>Cell.individualVoltage := Some (differential subtract cs i),
                              Cell.status := Some (getCellStatus (differential subtract cs i))\<rparr>]"
    have upd: "cs[i := a] ! i = a" for a
      using True by simp
    have step: "calculateLoop subtract i cs = calculateLoop subtract (i + 1) cs2"
    proof (cases "i = 0")
      case z: True
      from True upd show ?thesis
        by (subst calculateLoop.simps)
          (simp add: z cs2_def Let_def differential_def toNumber_def)
    next
      case False
      with True upd show ?thesis
        by (subst calculateLoop.simps)
          (simp add: cs2_def Let_def differential_def toNumber_def)
    qed
    have len: "length cs2 = length cs"
      by (simp add: cs2_def)
    have v: "Cell.voltage (cs2 ! j) = Cell.voltage (cs ! j)" if "j < length cs" for j
      using that True by (cases "i = j") (simp_all add: cs2_def)
    have d: "differential subtract cs2 j = differential subtract cs j" if "j < length cs" for j
    proof -
      from that have "0 < length cs" "j - 1 < length cs" by auto
      with that show ?thesis by (simp add: differential_def v)
    qed
    have "calculateLoop subtract (i + 1) cs2 ! k =
      (if k < i + 1 then cs2 ! k
       else (cs2 ! k)\<lparr>Cell.individualVoltage := Some (differential subtract cs2 k),
                           Cell.status := Some (getCellStatus (differential subtract cs2 k))\<rparr>)"
    proof (cases "i = 0")
      case z: True
      from "1.IH" [OF True refl refl, of k] "1.prems" upd show ?thesis
        by (simp add: z cs2_def differential_def toNumber_def)
    next
      case False
      with "1.IH" [OF True refl refl, of k] "1.prems" upd show ?thesis
        by (simp add: cs2_def differential_def toNumber_def)
    qed
    moreover have "cs2 ! k =
      (if k = i
       then (cs ! i)\<lparr>Cell.individualVoltage := Some (differential subtract cs i),
                         Cell.status := Some (getCellStatus (differential subtract cs i))\<rparr>
       else cs ! k)"
      using "1.prems" True by (cases "k = i") (simp_all add: cs2_def)
    ultimately show ?thesis
      using d [OF "1.prems"] by (cases "k = i") (auto simp: step)
  qed
qed

lemma length_calculateLoop: "length (calculateLoop subtract i cs) = length cs"
proof (induction subtract i cs rule: calculateLoop.induct)
  case (1 subtract i cs)
  show ?case
  proof (cases "i < length cs")
    case False
    then show ?thesis by (subst calculateLoop.simps) simp
  next
    case True
    from "1.IH" [OF True refl refl] True show ?thesis
      by (subst calculateLoop.simps) (simp add: Let_def)
  qed
qed

lemma number_calculateIndividualVoltages:
  "map Cell.number (calculateIndividualVoltages subtract cs) = map Cell.number cs"
  by (rule nth_equalityI)
    (simp_all add: calculateIndividualVoltages_def length_calculateLoop calculateLoop_nth)

lemma strictEquals_isNat: "isNat b \<Longrightarrow> strictEquals a b \<longleftrightarrow> a = b"
  by (cases a) (auto simp: isNat_def)

lemma mergeIndividual_find:
  assumes "isNat (Cell.number c)"
  shows "mergeIndividual ics c =
     (case find (\<lambda>ic. IndividualCell.number ic = Cell.number c) ics of
        Some ic \<Rightarrow>
          c\<lparr>Cell.individualVoltage := Some (IndividualCell.individualVoltage ic),
            Cell.status := Some (IndividualCell.status ic)\<rparr>
      | None \<Rightarrow> c\<lparr>Cell.individualVoltage := Some (Num 0), Cell.status := Some danger\<rparr>)"
  by (simp add: mergeIndividual_def strictEquals_isNat [OF assms])

lemma number_mergeIndividual: "Cell.number (mergeIndividual ics c) = Cell.number c"
  by (simp add: mergeIndividual_def split: option.splits)

lemma parse_sorted_numbers: "sorted_wrt le (map Cell.number (cells (parse subtract now text)))"
proof -
  obtain pinCells where n: "\<forall>c\<in>set pinCells. isNat (Cell.number c)"
    and c: "cells (parse subtract now text) =
       (if individualCells (parse subtract now text) \<noteq> []
        then map (mergeIndividual (individualCells (parse subtract now text)))
               (sort' (\<lambda>a b. sub (Cell.number a) (Cell.number b)) pinCells)
        else calculateIndividualVoltages subtract
               (sort' (\<lambda>a b. sub (Cell.number a) (Cell.number b)) pinCells))"
    by (rule parse_shape)
  let ?sorted = "sort' (\<lambda>a b. sub (Cell.number a) (Cell.number b)) pinCells"
  from n have "sorted_wrt (\<lambda>a b. le (Cell.number a) (Cell.number b)) ?sorted"
    by (rule sorted_sort')
  then have "sorted_wrt le (map Cell.number ?sorted)"
    by (simp add: sorted_wrt_map)
  moreover have "map Cell.number (cells (parse subtract now text)) = map Cell.number ?sorted"
    by (simp add: c number_calculateIndividualVoltages number_mergeIndividual)
  ultimately show ?thesis by simp
qed

lemma parse_lookup:
  assumes "individualCells (parse subtract now text) \<noteq> []" and "c \<in> set (cells (parse subtract now text))"
  shows "case find (\<lambda>ic. IndividualCell.number ic = Cell.number c)
                (individualCells (parse subtract now text)) of
           Some ic \<Rightarrow>
             Cell.individualVoltage c = Some (IndividualCell.individualVoltage ic) \<and>
             Cell.status c = Some (IndividualCell.status ic)
         | None \<Rightarrow>
             Cell.individualVoltage c = Some (Num 0) \<and> Cell.status c = Some danger"
proof -
  obtain pinCells where n: "\<forall>c\<in>set pinCells. isNat (Cell.number c)"
    and c: "cells (parse subtract now text) =
       (if individualCells (parse subtract now text) \<noteq> []
        then map (mergeIndividual (individualCells (parse subtract now text)))
               (sort' (\<lambda>a b. sub (Cell.number a) (Cell.number b)) pinCells)
        else calculateIndividualVoltages subtract
               (sort' (\<lambda>a b. sub (Cell.number a) (Cell.number b)) pinCells))"
    by (rule parse_shape)
  from assms c obtain c0 where c0: "c0 \<in> set pinCells"
    and m: "c = mergeIndividual (individualCells (parse subtract now text)) c0"
    by (auto simp: set_sort')
  from c0 n have nat: "isNat (Cell.number c0)" by simp
  have "Cell.number c = Cell.number c0" by (simp add: m number_mergeIndividual)
  with mergeIndividual_find [OF nat, of "individualCells (parse subtract now text)"] m
  show ?thesis by (simp split: option.splits)
qed

lemma parse_differential:
  assumes "individualCells (parse subtract now text) = []" and "k < length (cells (parse subtract now text))"
  shows "Cell.individualVoltage (cells (parse subtract now text) ! k) =
           Some (differential subtract (cells (parse subtract now text)) k) \<and>
         Cell.status (cells (parse subtract now text) ! k) =
           Some (getCellStatus (differential subtract (cells (parse subtract now text)) k))"
proof -
  obtain pinCells where
    c: "cells (parse subtract now text) =
       (if individualCells (parse subtract now text) \<noteq> []
        then map (mergeIndividual (individualCells (parse subtract now text)))
               (sort' (\<lambda>a b. sub (Cell.number a) (Cell.number b)) pinCells)
        else calculateIndividualVoltages subtract
               (sort' (\<lambda>a b. sub (Cell.number a) (Cell.number b)) pinCells))"
    by (rule parse_shape)
  define sorted where "sorted = sort' (\<lambda>a b. sub (Cell.number a) (Cell.number b)) pinCells"
  from c assms(1) have r: "cells (parse subtract now text) = calculateLoop subtract 0 sorted"
    by (simp add: sorted_def calculateIndividualVoltages_def)
  with assms(2) have k: "k < length sorted" by (simp add: length_calculateLoop)
  have nth: "calculateLoop subtract 0 sorted ! j =
      (sorted ! j)\<lparr>Cell.individualVoltage := Some (differential subtract sorted j),
                    Cell.status := Some (getCellStatus (differential subtract sorted j))\<rparr>"
    if "j < length sorted" for j
    using that by (simp add: calculateLoop_nth)
  from k have "0 < length sorted" "k - 1 < length sorted" by auto
  with k have "differential subtract (calculateLoop subtract 0 sorted) k = differential subtract sorted k"
    by (simp add: differential_def nth)
  with k show ?thesis by (simp add: r nth)
qed

section \<open>The parser on the example records\<close>

lemmas character_classes =
  isDigit_def isWhiteSpace_def isRawChar_def isVoltageChar_def isHexDigit_def

lemmas patterns =
  totalVoltage_pattern_def individualCell_pattern_def moduleHeader_pattern_def pinData_pattern_def

lemma parse_example_value:
  "parse subtract now example =
     \<lparr>timestamp = now, totalVoltage = Num 7.95, cellCount = Num 2,
      cells =
        [\<lparr>Cell.name = js ''1S'', number = Num 1, voltage = Num 3.963, raw = Num 22645,
          module = Num 1, pin = js ''A0'', individualVoltage = Some (Num 3.96),
          status = Some good\<rparr>,
         \<lparr>Cell.name = js ''2S'', number = Num 2, voltage = Num 7.953, raw = Num 22723,
          module = Num 1, pin = js ''A1'', individualVoltage = Some (Num 3.99),
          status = Some good\<rparr>],
      individualCells =
        [\<lparr>IndividualCell.name = js ''1S'', number = Num 1, individualVoltage = Num 3.96,
          status = good\<rparr>,
         \<lparr>IndividualCell.name = js ''2S'', number = Num 2, individualVoltage = Num 3.99,
          status = good\<rparr>],
      modules =
        [\<lparr>id' = Num 1, address = js ''48'',
          pins =
            [\<lparr>Pin.pin = js ''A0'', cell = js ''1S'', cellNumber = Num 1, raw = Num 22645,
              voltage = Num 3.963\<rparr>,
             \<lparr>Pin.pin = js ''A1'', cell = js ''2S'', cellNumber = Num 2, raw = Num 22723,
              voltage = Num 7.953\<rparr>]\<rparr>]\<rparr>"
proof -
  define l1 where "l1 = js ''BATERIA TOTAL (2S): 7.95V''"
  define l2 where "l2 = js ''Cel 1: 3.96V''"
  define l3 where "l3 = js ''Cel 2: 3.99V''"
  define l4 where "l4 = js ''M'' @ [0xF3] @ js ''dulo 1 (0x48):''"
  define l5 where "l5 = js ''A0 (1S): RAW=22645  Tens'' @ [0xE3] @ js ''o=3.963V''"
  define l6 where "l6 = js ''A1 (2S): RAW=22723  Tens'' @ [0xE3] @ js ''o=7.953V''"
  note l = l1_def l2_def l3_def l4_def l5_def l6_def
  have lines: "linesOf example = [l1, l2, l3, l4, l5, l6]"
    by (simp add: l example_def js_def split.simps trim_def isWhiteSpace_def linesOf_def)
  have total: "match example totalVoltage_pattern = Some [l1, js ''2'', js ''7.95'']"
    by (simp add: l example_def js_def match.simps patterns character_classes)
  have c1: "match l1 individualCell_pattern = None"
    by (simp add: l js_def match.simps patterns character_classes)
  have c2: "match l2 individualCell_pattern = Some [l2, js ''1'', js ''3.96'']"
    by (simp add: l js_def match.simps patterns character_classes)
  have c3: "match l3 individualCell_pattern = Some [l3, js ''2'', js ''3.99'']"
    by (simp add: l js_def match.simps patterns character_classes)
  have c4: "match l4 individualCell_pattern = None"
    by (simp add: l js_def match.simps patterns character_classes)
  have c5: "match l5 individualCell_pattern = None"
    by (simp add: l js_def match.simps patterns character_classes)
  have c6: "match l6 individualCell_pattern = None"
    by (simp add: l js_def match.simps patterns character_classes)
  have m1: "match l1 moduleHeader_pattern = None"
    by (simp add: l js_def match.simps patterns character_classes)
  have m2: "match l2 moduleHeader_pattern = None"
    by (simp add: l js_def match.simps patterns character_classes)
  have m3: "match l3 moduleHeader_pattern = None"
    by (simp add: l js_def match.simps patterns character_classes)
  have m4: "match l4 moduleHeader_pattern = Some [l4, js ''1'', js ''48'']"
    by (simp add: l js_def match.simps patterns character_classes)
  have m5: "match l5 moduleHeader_pattern = None"
    by (simp add: l js_def match.simps patterns character_classes)
  have m6: "match l6 moduleHeader_pattern = None"
    by (simp add: l js_def match.simps patterns character_classes)
  have p1: "match l1 pinData_pattern = None"
    by (simp add: l js_def match.simps patterns character_classes)
  have p2: "match l2 pinData_pattern = None"
    by (simp add: l js_def match.simps patterns character_classes)
  have p3: "match l3 pinData_pattern = None"
    by (simp add: l js_def match.simps patterns character_classes)
  have p5: "match l5 pinData_pattern = Some [l5, js ''0'', js ''1'', js ''22645'', js ''3.963'']"
    by (simp add: l js_def match.simps patterns character_classes)
  have p6: "match l6 pinData_pattern = Some [l6, js ''1'', js ''2'', js ''22723'', js ''7.953'']"
    by (simp add: l js_def match.simps patterns character_classes)
  have n: "parseInt (js ''1'') = Num 1" "parseInt (js ''2'') = Num 2"
    "parseInt (js ''22645'') = Num 22645" "parseInt (js ''22723'') = Num 22723"
    "parseFloat (js ''7.95'') = Num 7.95" "parseFloat (js ''3.96'') = Num 3.96"
    "parseFloat (js ''3.99'') = Num 3.99" "parseFloat (js ''3.963'') = Num 3.963"
    "parseFloat (js ''7.953'') = Num 7.953"
    by (simp_all add: js_def parseInt_def parseFloat_def digitsValue_def isDigit_def)
  have t: "digitsOf (Suc 0) = js ''1''" "digitsOf 2 = js ''2''"
    by (simp_all add: digitsOf.simps js_def)
  have a: "js ''A'' @ js ''0'' = js ''A0''" "js ''A'' @ js ''1'' = js ''A1''"
    "js ''1'' @ js ''S'' = js ''1S''" "js ''2'' @ js ''S'' = js ''2S''"
    by (simp_all add: js_def)
  show ?thesis
    by (simp add: parse_def lines total c1 c2 c3 c4 c5 c6 m1 m2 m3 m4 m5 m6 p1 p2 p3 p5 p6
        n t a sort'_def gt_def ge_def getCellStatus_def mergeIndividual_def Let_def)
qed

lemma parse_modulesOnly_value:
  "parse subtract now modulesOnly =
     \<lparr>timestamp = now, totalVoltage = Num 0, cellCount = Num 0,
      cells =
        [\<lparr>Cell.name = js ''1S'', number = Num 1, voltage = Num 3.5, raw = Num 8,
          module = Num 1, pin = js ''A1'', individualVoltage = Some (Num 3.5),
          status = Some good\<rparr>,
         \<lparr>Cell.name = js ''2S'', number = Num 2, voltage = Num 7.5, raw = Num 9,
          module = Num 1, pin = js ''A0'',
          individualVoltage = Some (subtract (Num 7.5) (Num 3.5)),
          status = Some (getCellStatus (subtract (Num 7.5) (Num 3.5)))\<rparr>,
         \<lparr>Cell.name = js ''2S'', number = Num 2, voltage = Num 7, raw = Num 7,
          module = Num 2, pin = js ''A0'',
          individualVoltage = Some (subtract (Num 7) (Num 7.5)),
          status = Some (getCellStatus (subtract (Num 7) (Num 7.5)))\<rparr>],
      individualCells = [],
      modules =
        [\<lparr>id' = Num 1, address = js ''48'',
          pins =
            [\<lparr>Pin.pin = js ''A0'', cell = js ''2S'', cellNumber = Num 2, raw = Num 9,
              voltage = Num 7.5\<rparr>,
             \<lparr>Pin.pin = js ''A1'', cell = js ''1S'', cellNumber = Num 1, raw = Num 8,
              voltage = Num 3.5\<rparr>]\<rparr>,
         \<lparr>id' = Num 2, address = js ''49'',
          pins =
            [\<lparr>Pin.pin = js ''A0'', cell = js ''2S'', cellNumber = Num 2, raw = Num 7,
              voltage = Num 7\<rparr>]\<rparr>]\<rparr>"
proof -
  define l1 where "l1 = js ''M'' @ [0xF3] @ js ''dulo 1 (0x48):''"
  define l2 where "l2 = js ''A0 (2S): RAW=9 Tens'' @ [0xE3] @ js ''o=7.5V''"
  define l3 where "l3 = js ''A1 (1S): RAW=8 Tens'' @ [0xE3] @ js ''o=3.5V''"
  define l4 where "l4 = js ''M'' @ [0xF3] @ js ''dulo 2 (0x49):''"
  define l5 where "l5 = js ''A0 (2S): RAW=7 Tens'' @ [0xE3] @ js ''o=7.0V''"
  note l = l1_def l2_def l3_def l4_def l5_def
  have lines: "linesOf modulesOnly = [l1, l2, l3, l4, l5]"
    by (simp add: l modulesOnly_def js_def split.simps trim_def isWhiteSpace_def linesOf_def)
  have total: "match modulesOnly totalVoltage_pattern = None"
    by (simp add: modulesOnly_def js_def match.simps patterns character_classes)
  have c: "match l1 individualCell_pattern = None" "match l2 individualCell_pattern = None"
    "match l3 individualCell_pattern = None" "match l4 individualCell_pattern = None"
    "match l5 individualCell_pattern = None"
    by (simp_all add: l js_def match.simps patterns character_classes)
  have m: "match l1 moduleHeader_pattern = Some [l1, js ''1'', js ''48'']"
    "match l2 moduleHeader_pattern = None" "match l3 moduleHeader_pattern = None"
    "match l4 moduleHeader_pattern = Some [l4, js ''2'', js ''49'']"
    "match l5 moduleHeader_pattern = None"
    by (simp_all add: l js_def match.simps patterns character_classes)
  have p: "match l2 pinData_pattern = Some [l2, js ''0'', js ''2'', js ''9'', js ''7.5'']"
    "match l3 pinData_pattern = Some [l3, js ''1'', js ''1'', js ''8'', js ''3.5'']"
    "match l5 pinData_pattern = Some [l5, js ''0'', js ''2'', js ''7'', js ''7.0'']"
    by (simp_all add: l js_def match.simps patterns character_classes)
  have n: "parseInt (js ''1'') = Num 1" "parseInt (js ''2'') = Num 2"
    "parseInt (js ''7'') = Num 7" "parseInt (js ''8'') = Num 8" "parseInt (js ''9'') = Num 9"
    "parseFloat (js ''7.5'') = Num 7.5" "parseFloat (js ''3.5'') = Num 3.5"
    "parseFloat (js ''7.0'') = Num 7"
    by (simp_all add: js_def parseInt_def parseFloat_def digitsValue_def isDigit_def)
  have a: "js ''A'' @ js ''0'' = js ''A0''" "js ''A'' @ js ''1'' = js ''A1''"
    "js ''1'' @ js ''S'' = js ''1S''" "js ''2'' @ js ''S'' = js ''2S''"
    by (simp_all add: js_def)
  have g: "getCellStatus (Num (7 / 2)) = good"
    by (simp add: getCellStatus_def gt_def ge_def)
  show ?thesis
    by (simp add: parse_def lines total c m p n a sort'_def gt_def g
        Let_def calculateIndividualVoltages_def calculateLoop.simps toNumber_def)
qed

lemma parse_lowPins_value:
  "parse subtract now lowPins =
     \<lparr>timestamp = now, totalVoltage = Num 0, cellCount = Num 0,
      cells =
        [\<lparr>Cell.name = js ''1S'', number = Num 1, voltage = Num 0.2, raw = Num 1,
          module = Num 1, pin = js ''A0'', individualVoltage = Some (Num 0.2),
          status = Some warning\<rparr>,
         \<lparr>Cell.name = js ''2S'', number = Num 2, voltage = Num 0.3, raw = Num 2,
          module = Num 1, pin = js ''A1'',
          individualVoltage = Some (subtract (Num 0.3) (Num 0.2)),
          status = Some (getCellStatus (subtract (Num 0.3) (Num 0.2)))\<rparr>],
      individualCells = [],
      modules =
        [\<lparr>id' = Num 1, address = js ''48'',
          pins =
            [\<lparr>Pin.pin = js ''A0'', cell = js ''1S'', cellNumber = Num 1, raw = Num 1,
              voltage = Num 0.2\<rparr>,
             \<lparr>Pin.pin = js ''A1'', cell = js ''2S'', cellNumber = Num 2, raw = Num 2,
              voltage = Num 0.3\<rparr>]\<rparr>]\<rparr>"
proof -
  define l1 where "l1 = js ''M'' @ [0xF3] @ js ''dulo 1 (0x48):''"
  define l2 where "l2 = js ''A0 (1S): RAW=1 Tens'' @ [0xE3] @ js ''o=0.2V''"
  define l3 where "l3 = js ''A1 (2S): RAW=2 Tens'' @ [0xE3] @ js ''o=0.3V''"
  note l = l1_def l2_def l3_def
  have lines: "linesOf lowPins = [l1, l2, l3]"
    by (simp add: l lowPins_def js_def split.simps trim_def isWhiteSpace_def linesOf_def)
  have total: "match lowPins totalVoltage_pattern = None"
    by (simp add: lowPins_def js_def match.simps patterns character_classes)
  have c: "match l1 individualCell_pattern = None" "match l2 individualCell_pattern = None"
    "match l3 individualCell_pattern = None"
    by (simp_all add: l js_def match.simps patterns character_classes)
  have m: "match l1 moduleHeader_pattern = Some [l1, js ''1'', js ''48'']"
    "match l2 moduleHeader_pattern = None" "match l3 moduleHeader_pattern = None"
    by (simp_all add: l js_def match.simps patterns character_classes)
  have p: "match l2 pinData_pattern = Some [l2, js ''0'', js ''1'', js ''1'', js ''0.2'']"
    "match l3 pinData_pattern = Some [l3, js ''1'', js ''2'', js ''2'', js ''0.3'']"
    by (simp_all add: l js_def match.simps patterns character_classes)
  have n: "parseInt (js ''1'') = Num 1" "parseInt (js ''2'') = Num 2"
    "parseFloat (js ''0.2'') = Num 0.2" "parseFloat (js ''0.3'') = Num 0.3"
    by (simp_all add: js_def parseInt_def parseFloat_def digitsValue_def isDigit_def)
  have a: "js ''A'' @ js ''0'' = js ''A0''" "js ''A'' @ js ''1'' = js ''A1''"
    "js ''1'' @ js ''S'' = js ''1S''" "js ''2'' @ js ''S'' = js ''2S''"
    by (simp_all add: js_def)
  have g: "getCellStatus (Num (1 / 5)) = warning"
    by (simp add: getCellStatus_def gt_def ge_def)
  show ?thesis
    by (simp add: parse_def lines total c m p n a sort'_def gt_def g
        Let_def calculateIndividualVoltages_def calculateLoop.simps toNumber_def)
qed

lemma parse_repeatedCell_value:
  "parse subtract now repeatedCell =
     \<lparr>timestamp = now, totalVoltage = Num 0, cellCount = Num 0,
      cells =
        [\<lparr>Cell.name = js ''1S'', number = Num 1, voltage = Num 3.5, raw = Num 5,
          module = Num 1, pin = js ''A0'', individualVoltage = Some (Num 3.5),
          status = Some good\<rparr>],
      individualCells =
        [\<lparr>IndividualCell.name = js ''1S'', number = Num 1, individualVoltage = Num 3.5,
          status = good\<rparr>,
         \<lparr>IndividualCell.name = js ''1S'', number = Num 1, individualVoltage = Num 4.5,
          status = warning\<rparr>],
      modules =
        [\<lparr>id' = Num 1, address = js ''48'',
          pins =
            [\<lparr>Pin.pin = js ''A0'', cell = js ''1S'', cellNumber = Num 1, raw = Num 5,
              voltage = Num 3.5\<rparr>]\<rparr>]\<rparr>"
proof -
  define l1 where "l1 = js ''Cel 1: 3.5V''"
  define l2 where "l2 = js ''Cel 1: 4.5V''"
  define l3 where "l3 = js ''M'' @ [0xF3] @ js ''dulo 1 (0x48):''"
  define l4 where "l4 = js ''A0 (1S): RAW=5 Tens'' @ [0xE3] @ js ''o=3.5V''"
  note l = l1_def l2_def l3_def l4_def
  have lines: "linesOf repeatedCell = [l1, l2, l3, l4]"
    by (simp add: l repeatedCell_def js_def split.simps trim_def isWhiteSpace_def linesOf_def)
  have total: "match repeatedCell totalVoltage_pattern = None"
    by (simp add: repeatedCell_def js_def match.simps patterns character_classes)
  have c: "match l1 individualCell_pattern = Some [l1, js ''1'', js ''3.5'']"
    "match l2 individualCell_pattern = Some [l2, js ''1'', js ''4.5'']"
    "match l3 individualCell_pattern = None" "match l4 individualCell_pattern = None"
    by (simp_all add: l js_def match.simps patterns character_classes)
  have m: "match l1 moduleHeader_pattern = None" "match l2 moduleHeader_pattern = None"
    "match l3 moduleHeader_pattern = Some [l3, js ''1'', js ''48'']"
    "match l4 moduleHeader_pattern = None"
    by (simp_all add: l js_def match.simps patterns character_classes)
  have p: "match l1 pinData_pattern = None" "match l2 pinData_pattern = None"
    "match l4 pinData_pattern = Some [l4, js ''0'', js ''1'', js ''5'', js ''3.5'']"
    by (simp_all add: l js_def match.simps patterns character_classes)
  have n: "parseInt (js ''1'') = Num 1" "parseInt (js ''5'') = Num 5"
    "parseFloat (js ''3.5'') = Num 3.5" "parseFloat (js ''4.5'') = Num 4.5"
    by (simp_all add: js_def parseInt_def parseFloat_def digitsValue_def isDigit_def)
  have t: "digitsOf (Suc 0) = js ''1''"
    by (simp add: digitsOf.simps js_def)
  have a: "js ''A'' @ js ''0'' = js ''A0''" "js ''1'' @ js ''S'' = js ''1S''"
    by (simp_all add: js_def)
  show ?thesis
    by (simp add: parse_def lines total c m p n t a sort'_def gt_def ge_def getCellStatus_def
        mergeIndividual_def Let_def)
qed

section \<open>The teardown: effects and final state\<close>

lemma calls_append: "calls (xs @ ys) = calls xs @ calls ys"
  by (induction xs rule: calls.induct) simp_all

lemma statusChanges_append: "statusChanges (xs @ ys) = statusChanges xs @ statusChanges ys"
  by (induction xs rule: statusChanges.induct) simp_all

lemma calls_safeOperation: "calls (fst (safeOperation browser operation)) = [operation]"
  by (simp add: safeOperation_def split: outcome.splits)

lemma statusChanges_safeOperation:
  "statusChanges (fst (safeOperation browser operation)) = []"
  by (simp add: safeOperation_def split: outcome.splits)

lemma readable_all: "readable browser \<Longrightarrow> browser operation \<noteq> RejectsUnreadable"
  by (cases operation) (simp_all add: readable_def)

lemma snd_safeOperation_readable:
  "readable browser \<Longrightarrow> snd (safeOperation browser operation) = None"
  using readable_all [of browser operation]
  by (simp add: safeOperation_def split: outcome.splits)

lemma guarded_readable:
  assumes "readable browser"
  shows "(if c then safeOperation browser operation else ([], None)) =
         (if c then fst (safeOperation browser operation) else [], None)"
  using snd_safeOperation_readable [OF assms, of operation]
  by (cases "safeOperation browser operation") simp

lemma statusChanges_awaitAll:
  "\<forall>x\<in>set steps. statusChanges (fst x) = [] \<Longrightarrow> statusChanges (fst (awaitAll steps)) = []"
  by (induction steps rule: awaitAll.induct)
    (simp_all add: split_beta statusChanges_append)

lemma cleanupConnection_readable:
  assumes "readable browser"
  shows "snd (snd (cleanupConnection browser this)) = None"
    and "calls (fst (cleanupConnection browser this)) =
      filter (isSet this) [CancelReader, CloseWriter, AwaitReadable, AwaitWritable, ClosePort]"
    and "fst (snd (cleanupConnection browser this)) =
      this\<lparr>keepReading := False, port := None, reader := None, writer := None,
           readableStreamClosed := None, writableStreamClosed := None,
           isDisconnecting := False, buffer := []\<rparr>"
  by (simp_all add: cleanupConnection_def Let_def guarded_readable [OF assms] calls_append
      calls_safeOperation)

lemma statusChanges_cleanupConnection:
  "statusChanges (fst (cleanupConnection browser this)) = []"
proof -
  have "statusChanges (fst (awaitAll
      [if reader this \<noteq> None then safeOperation browser CancelReader else ([], None),
       if writer this \<noteq> None then safeOperation browser CloseWriter else ([], None),
       if readableStreamClosed this \<noteq> None then safeOperation browser AwaitReadable else ([], None),
       if writableStreamClosed this \<noteq> None then safeOperation browser AwaitWritable else ([], None),
       if port this \<noteq> None then safeOperation browser ClosePort else ([], None)])) = []"
    by (rule statusChanges_awaitAll) (simp add: statusChanges_safeOperation)
  then show ?thesis
    by (simp add: cleanupConnection_def Let_def split_beta split: option.splits
        split del: if_split)
qed

lemma cleanupConnection_state:
  "fst (snd (cleanupConnection browser this)) =
     (case snd (snd (cleanupConnection browser this)) of
        None \<Rightarrow>
          this\<lparr>keepReading := False, port := None, reader := None, writer := None,
               readableStreamClosed := None, writableStreamClosed := None,
               isDisconnecting := False, buffer := []\<rparr>
      | Some e \<Rightarrow> this\<lparr>keepReading := False\<rparr>)"
  by (simp add: cleanupConnection_def Let_def split_beta split: option.splits
      split del: if_split)

lemma disconnect_runs:
  assumes "\<not> isDisconnecting this" "port this \<noteq> None"
  shows "disconnect browser this =
    (let this1 = this\<lparr>isDisconnecting := True, keepReading := False\<rparr>;
         r = cleanupConnection browser this1;
         this2 = fst (snd r)
     in (fst r @
         (case snd (snd r) of None \<Rightarrow> [] | Some error \<Rightarrow> [WarnCleanup error]) @
         (if onStatusChangeCallback this then
            [StatusChange Disconnected (js ''Disconnected from serial port'')] else []),
         (case snd (snd r) of
            None \<Rightarrow> this2
          | Some error \<Rightarrow>
              this2\<lparr>port := None, reader := None, writer := None,
                    readableStreamClosed := None, writableStreamClosed := None,
                    isDisconnecting := False\<rparr>)\<lparr>isConnected := False\<rparr>))"
  using assms
  by (cases "port this")
    (simp_all add: disconnect_def Let_def split_beta updateStatus_def cleanupConnection_state
      split: option.splits)

lemma isSet_disconnecting:
  "filter (isSet (this\<lparr>isDisconnecting := True, keepReading := False\<rparr>)) xs =
   filter (isSet this) xs"
  by (rule filter_cong) (auto elim: isSet.elims)

section \<open>Claims about the parser\<close>

text \<open>
  C2, as the code has it: the cells of the reading are in ascending order of their cell
  numbers, whatever the order of the pin lines.  The order is not strict: cells with the
  same number are not merged.
\<close>

theorem parse_cells_sorted: "sorted_wrt le (map Cell.number (cells (parse subtract now text)))"
  by (rule parse_sorted_numbers)

text \<open>
  C2 as stated fails: in the record with two modules that both have a pin for cell 2, the
  reading has two cells with number 2.
\<close>

theorem parse_cells_distinct_counterexample:
  "\<not> distinct (map Cell.number (cells (parse sub 0 modulesOnly)))"
  by (simp add: parse_modulesOnly_value)

text \<open>
  C3: when the individual-cells section has at least one entry, every cell of the reading
  whose number is the number of an entry has the individual voltage and the status of the
  entry that the lookup finds (the first with that number), and every other cell has the
  individual voltage 0 and the status danger.  No cell gets a differential voltage.
\<close>

theorem parse_merge:
  assumes "individualCells (parse subtract now text) \<noteq> []" and "c \<in> set (cells (parse subtract now text))"
  shows "case find (\<lambda>ic. IndividualCell.number ic = Cell.number c)
                (individualCells (parse subtract now text)) of
           Some ic \<Rightarrow>
             Cell.individualVoltage c = Some (IndividualCell.individualVoltage ic) \<and>
             Cell.status c = Some (IndividualCell.status ic)
         | None \<Rightarrow>
             Cell.individualVoltage c = Some (Num 0) \<and> Cell.status c = Some danger"
  using assms by (rule parse_lookup)

text \<open>
  In the end-to-end example the first cell has number 1 and takes 3.96 V and the status
  good from the entry of cell 1.
\<close>

theorem parse_merge_witness:
  "individualCells (parse sub 0 example) \<noteq> [] \<and>
   cells (parse sub 0 example) ! 0 \<in> set (cells (parse sub 0 example)) \<and>
   Cell.number (cells (parse sub 0 example) ! 0) = Num 1 \<and>
   Cell.individualVoltage (cells (parse sub 0 example) ! 0) = Some (Num 3.96) \<and>
   Cell.status (cells (parse sub 0 example) ! 0) = Some good"
proof -
  have h: "individualCells (parse sub 0 example) \<noteq> []"
    "cells (parse sub 0 example) ! 0 \<in> set (cells (parse sub 0 example))"
    by (simp_all add: parse_example_value)
  from parse_merge [OF h] h show ?thesis
    by (simp add: parse_example_value)
qed

text \<open>
  C4: when the individual-cells section has no entry, the cells are in ascending order of
  their numbers, the cell at position 0 has its cumulative voltage as individual voltage,
  the cell at a later position \<open>k\<close> has the cumulative voltage at \<open>k\<close> less the cumulative
  voltage at \<open>k - 1\<close>, the difference being the one that the subtraction of doubles
  \<open>subtract\<close> gives, and the status of each cell is \<^verbatim>\<open>getCellStatus\<close> of its individual
  voltage.
\<close>

theorem parse_fallback:
  assumes "individualCells (parse subtract now text) = []" and "k < length (cells (parse subtract now text))"
  shows "sorted_wrt le (map Cell.number (cells (parse subtract now text))) \<and>
         Cell.individualVoltage (cells (parse subtract now text) ! k) =
           Some (if k = 0 then Cell.voltage (cells (parse subtract now text) ! 0)
                 else subtract (Cell.voltage (cells (parse subtract now text) ! k))
                        (Cell.voltage (cells (parse subtract now text) ! (k - 1)))) \<and>
         Cell.status (cells (parse subtract now text) ! k) =
           Some (getCellStatus (toNumber (Cell.individualVoltage (cells (parse subtract now text) ! k))))"
  using parse_differential [OF assms] parse_sorted_numbers [of subtract now "text"]
  by (simp add: differential_def toNumber_def)

text \<open>
  The record without an individual-cells section: the cumulative voltages in order are 3.5,
  7.5 and 7, whose differences are exact as doubles too, and the third cell gets
  7 - 7.5 = -0.5 V and the status warning.  The record with the cumulative voltages 0.2 and
  0.3, with the difference that doubles give: the second cell gets 0.09999999999999998 V
  and the status danger.
\<close>

theorem parse_fallback_witness:
  "individualCells (parse sub 0 modulesOnly) = [] \<and> 2 < length (cells (parse sub 0 modulesOnly)) \<and>
   map Cell.voltage (cells (parse sub 0 modulesOnly)) = [Num 3.5, Num 7.5, Num 7] \<and>
   Cell.individualVoltage (cells (parse sub 0 modulesOnly) ! 2) = Some (Num (- 0.5)) \<and>
   Cell.status (cells (parse sub 0 modulesOnly) ! 2) = Some warning \<and>
   individualCells (parse subtractRounded 0 lowPins) = [] \<and>
   1 < length (cells (parse subtractRounded 0 lowPins)) \<and>
   map Cell.voltage (cells (parse subtractRounded 0 lowPins)) = [Num 0.2, Num 0.3] \<and>
   Cell.individualVoltage (cells (parse subtractRounded 0 lowPins) ! 1) =
     Some (Num 0.09999999999999998) \<and>
   Cell.status (cells (parse subtractRounded 0 lowPins) ! 1) = Some danger"
proof -
  have h: "individualCells (parse sub 0 modulesOnly) = []" "2 < length (cells (parse sub 0 modulesOnly))"
    by (simp_all add: parse_modulesOnly_value)
  have h': "individualCells (parse subtractRounded 0 lowPins) = []"
    "1 < length (cells (parse subtractRounded 0 lowPins))"
    by (simp_all add: parse_lowPins_value)
  from parse_fallback [OF h] parse_fallback [OF h'] h h' show ?thesis
    by (simp add: parse_modulesOnly_value parse_lowPins_value subtractRounded_def
        getCellStatus_def gt_def ge_def)
qed

text \<open>
  C5: \<^verbatim>\<open>getCellStatus\<close> on a real voltage, by its absolute value: danger below 0.1, good
  from 3.0 to 4.3, warning above 4.3 and strictly between 0.1 and 2.5, good otherwise; and
  the four sample values.
\<close>

theorem getCellStatus_classification:
  "getCellStatus (Num v) =
     (if \<bar>v\<bar> < 0.1 then danger
      else if 3.0 \<le> \<bar>v\<bar> \<and> \<bar>v\<bar> \<le> 4.3 then good
      else if \<bar>v\<bar> > 4.3 \<or> (0.1 < \<bar>v\<bar> \<and> \<bar>v\<bar> < 2.5) then warning
      else good) \<and>
   getCellStatus (Num 3.96) = good \<and>
   getCellStatus (Num 0.05) = danger \<and>
   getCellStatus (Num 2.0) = warning \<and>
   getCellStatus (Num 4.5) = warning"
  by (simp add: getCellStatus_def gt_def ge_def)

text \<open>
  C6, as the code has it: the entries of the individual-cells section are the matching
  lines in record order, duplicates kept, and a cell takes the individual voltage and the
  status of the first entry with its number: the earliest of the lines that name the cell
  takes effect.
\<close>

theorem individualCells_first_wins:
  assumes "c \<in> set (cells (parse subtract now text))"
    and "i < length (individualCells (parse subtract now text))"
    and "IndividualCell.number (individualCells (parse subtract now text) ! i) = Cell.number c"
    and "\<forall>j<i. IndividualCell.number (individualCells (parse subtract now text) ! j) \<noteq> Cell.number c"
  shows "individualCells (parse subtract now text) = List.map_filter individualCellOf (linesOf text) \<and>
         Cell.individualVoltage c =
           Some (IndividualCell.individualVoltage (individualCells (parse subtract now text) ! i)) \<and>
         Cell.status c = Some (IndividualCell.status (individualCells (parse subtract now text) ! i))"
proof -
  let ?ics = "individualCells (parse subtract now text)"
  from assms(2) have ne: "?ics \<noteq> []" by auto
  from assms(2-4) have "find (\<lambda>ic. IndividualCell.number ic = Cell.number c) ?ics = Some (?ics ! i)"
    by (auto simp: find_Some_iff)
  with parse_lookup [OF ne assms(1)] have
    "Cell.individualVoltage c = Some (IndividualCell.individualVoltage (?ics ! i)) \<and>
     Cell.status c = Some (IndividualCell.status (?ics ! i))"
    by simp
  moreover have "?ics = List.map_filter individualCellOf (linesOf text)"
    by (rule parse_shape)
  ultimately show ?thesis by simp
qed

text \<open>
  The record that names cell 1 twice: the cell takes 3.5 V and good from the first line.
\<close>

theorem individualCells_first_wins_witness:
  "cells (parse sub 0 repeatedCell) ! 0 \<in> set (cells (parse sub 0 repeatedCell)) \<and>
   0 < length (individualCells (parse sub 0 repeatedCell)) \<and>
   IndividualCell.number (individualCells (parse sub 0 repeatedCell) ! 0) =
     Cell.number (cells (parse sub 0 repeatedCell) ! 0) \<and>
   Cell.individualVoltage (cells (parse sub 0 repeatedCell) ! 0) = Some (Num 3.5) \<and>
   Cell.status (cells (parse sub 0 repeatedCell) ! 0) = Some good"
proof -
  have h: "cells (parse sub 0 repeatedCell) ! 0 \<in> set (cells (parse sub 0 repeatedCell))"
    "0 < length (individualCells (parse sub 0 repeatedCell))"
    "IndividualCell.number (individualCells (parse sub 0 repeatedCell) ! 0) =
       Cell.number (cells (parse sub 0 repeatedCell) ! 0)"
    "\<forall>j<0. IndividualCell.number (individualCells (parse sub 0 repeatedCell) ! j) \<noteq>
       Cell.number (cells (parse sub 0 repeatedCell) ! 0)"
    by (simp_all add: parse_repeatedCell_value)
  from individualCells_first_wins [OF h] h show ?thesis
    by (simp add: parse_repeatedCell_value)
qed

text \<open>
  C6 as stated fails on that record: the section has 3.5 V (good) and then 4.5 V (warning)
  for cell 1, and the cell of the reading has 3.5 V and good, the values of the earlier
  line.
\<close>

theorem individualCells_last_wins_counterexample:
  "map IndividualCell.number (individualCells (parse sub 0 repeatedCell)) = [Num 1, Num 1] \<and>
   map IndividualCell.individualVoltage (individualCells (parse sub 0 repeatedCell)) =
     [Num 3.5, Num 4.5] \<and>
   map IndividualCell.status (individualCells (parse sub 0 repeatedCell)) = [good, warning] \<and>
   map Cell.number (cells (parse sub 0 repeatedCell)) = [Num 1] \<and>
   map Cell.individualVoltage (cells (parse sub 0 repeatedCell)) = [Some (Num 3.5)] \<and>
   map Cell.status (cells (parse sub 0 repeatedCell)) = [Some good]"
  by (simp add: parse_repeatedCell_value)

text \<open>
  C8: the end-to-end example parses to cell count 2, total voltage 7.95, the two cells 1
  (3.96 V, good) and 2 (3.99 V, good), and the one module 1 at address 48 with the pins A0
  and A1 in this order.
\<close>

theorem parse_example:
  "cellCount (parse subtract now example) = Num 2 \<and>
   totalVoltage (parse subtract now example) = Num 7.95 \<and>
   map (\<lambda>c. (Cell.number c, Cell.individualVoltage c, Cell.status c))
     (cells (parse subtract now example)) =
     [(Num 1, Some (Num 3.96), Some good), (Num 2, Some (Num 3.99), Some good)] \<and>
   map (\<lambda>m. (id' m, address m, map Pin.pin (pins m))) (modules (parse subtract now example)) =
     [(Num 1, js ''48'', [js ''A0'', js ''A1''])]"
  by (simp add: parse_example_value)

section \<open>Claims about the teardown\<close>

text \<open>
  C9, as the code has it.  When every rejection has a text that can be read,
  \<^verbatim>\<open>_cleanupConnection\<close> throws nothing and attempts, in the order cancel reader, close
  writer, await readable pipe, await writable pipe, close port, exactly the steps whose
  reference is set, whatever the outcome of each step; afterwards port, reader and writer
  are cleared, the buffer is empty and the disconnecting flag is false; and when
  \<^verbatim>\<open>disconnect\<close> runs the teardown (it is not already disconnecting and holds a port), the
  same steps are attempted and the buffer is empty afterwards.  Whatever the rejections
  are, after a \<^verbatim>\<open>disconnect\<close> that runs the teardown port, reader and writer are
  cleared, the disconnecting flag is false, the reader is not connected, and the state
  reported to the status callback is disconnected.
\<close>

theorem teardown:
  "(readable browser \<longrightarrow>
      snd (snd (cleanupConnection browser this)) = None \<and>
      calls (fst (cleanupConnection browser this)) =
        filter (isSet this) [CancelReader, CloseWriter, AwaitReadable, AwaitWritable, ClosePort] \<and>
      port (fst (snd (cleanupConnection browser this))) = None \<and>
      reader (fst (snd (cleanupConnection browser this))) = None \<and>
      writer (fst (snd (cleanupConnection browser this))) = None \<and>
      buffer (fst (snd (cleanupConnection browser this))) = [] \<and>
      \<not> isDisconnecting (fst (snd (cleanupConnection browser this)))) \<and>
   (readable browser \<and> \<not> isDisconnecting this \<and> port this \<noteq> None \<longrightarrow>
      calls (fst (disconnect browser this)) =
        filter (isSet this) [CancelReader, CloseWriter, AwaitReadable, AwaitWritable, ClosePort] \<and>
      buffer (snd (disconnect browser this)) = []) \<and>
   (\<not> isDisconnecting this \<and> port this \<noteq> None \<longrightarrow>
      port (snd (disconnect browser this)) = None \<and>
      reader (snd (disconnect browser this)) = None \<and>
      writer (snd (disconnect browser this)) = None \<and>
      \<not> isDisconnecting (snd (disconnect browser this)) \<and>
      \<not> isConnected (snd (disconnect browser this)) \<and>
      statusChanges (fst (disconnect browser this)) =
        (if onStatusChangeCallback this then [Disconnected] else []))"
proof (intro conjI impI)
  assume r: "readable browser \<and> \<not> isDisconnecting this \<and> port this \<noteq> None"
  then have d: "\<not> isDisconnecting this" "port this \<noteq> None" and rb: "readable browser"
    by simp_all
  show "calls (fst (disconnect browser this)) =
        filter (isSet this) [CancelReader, CloseWriter, AwaitReadable, AwaitWritable, ClosePort]"
    by (simp add: disconnect_runs [OF d] Let_def cleanupConnection_readable [OF rb]
        calls_append isSet_disconnecting)
  show "buffer (snd (disconnect browser this)) = []"
    by (simp add: disconnect_runs [OF d] Let_def cleanupConnection_readable [OF rb])
next
  assume "\<not> isDisconnecting this \<and> port this \<noteq> None"
  then have d: "\<not> isDisconnecting this" "port this \<noteq> None"
    by simp_all
  note s = disconnect_runs [OF d] Let_def cleanupConnection_state
  show "port (snd (disconnect browser this)) = None"
    by (simp add: s split: option.splits)
  show "reader (snd (disconnect browser this)) = None"
    by (simp add: s split: option.splits)
  show "writer (snd (disconnect browser this)) = None"
    by (simp add: s split: option.splits)
  show "\<not> isDisconnecting (snd (disconnect browser this))"
    by (simp add: s split: option.splits)
  show "\<not> isConnected (snd (disconnect browser this))"
    by (simp add: s split: option.splits)
  show "statusChanges (fst (disconnect browser this)) =
        (if onStatusChangeCallback this then [Disconnected] else [])"
    by (simp add: s statusChanges_append statusChanges_cleanupConnection split: option.splits)
qed (simp_all add: cleanupConnection_readable)

text \<open>
  Disconnecting the connected reader when cancelling the reader fails with a readable
  error: the other steps are still attempted, the buffer is cleared and disconnected is
  reported.  When the error of that step cannot be read, the references are cleared and
  disconnected is reported all the same.
\<close>

theorem teardown_witness:
  "calls (fst (disconnect
      (\<lambda>operation. if operation = CancelReader then Rejects (js ''gone'') else Resolves)
      connectedReader)) = [CancelReader, CloseWriter, AwaitReadable, ClosePort] \<and>
   buffer (snd (disconnect
      (\<lambda>operation. if operation = CancelReader then Rejects (js ''gone'') else Resolves)
      connectedReader)) = [] \<and>
   statusChanges (fst (disconnect
      (\<lambda>operation. if operation = CancelReader then Rejects (js ''gone'') else Resolves)
      connectedReader)) = [Disconnected] \<and>
   port (snd (disconnect
      (\<lambda>operation. if operation = CancelReader then RejectsUnreadable else Resolves)
      connectedReader)) = None \<and>
   statusChanges (fst (disconnect
      (\<lambda>operation. if operation = CancelReader then RejectsUnreadable else Resolves)
      connectedReader)) = [Disconnected]"
proof -
  have r: "readable (\<lambda>operation. if operation = CancelReader then Rejects (js ''gone'') else Resolves)"
    by (simp add: readable_def)
  have h: "\<not> isDisconnecting connectedReader" "port connectedReader \<noteq> None"
    "onStatusChangeCallback connectedReader"
    by (simp_all add: connectedReader_def constructor_def)
  have s: "filter (isSet connectedReader)
      [CancelReader, CloseWriter, AwaitReadable, AwaitWritable, ClosePort] =
      [CancelReader, CloseWriter, AwaitReadable, ClosePort]"
    by (simp add: connectedReader_def constructor_def)
  from teardown [of "\<lambda>operation. if operation = CancelReader then Rejects (js ''gone'') else Resolves"
      connectedReader]
    teardown [of "\<lambda>operation. if operation = CancelReader then RejectsUnreadable else Resolves"
      connectedReader] r h s
  show ?thesis by simp
qed

text \<open>
  C9 as stated fails: when the connected reader is disconnected and every step succeeds, the
  step that awaits the writable pipe is still not attempted, since its reference is not
  set; and for a reader that holds nothing but a port, as after a failed
  \<^verbatim>\<open>port.open\<close>, \<^verbatim>\<open>_cleanupConnection\<close> attempts the last step only and reports no state
  itself.
\<close>

theorem teardown_counterexample:
  "calls (fst (disconnect (\<lambda>operation. Resolves) connectedReader)) =
     [CancelReader, CloseWriter, AwaitReadable, ClosePort] \<and>
   calls (fst (cleanupConnection (\<lambda>operation. Resolves) (constructor\<lparr>port := Some 0\<rparr>))) =
     [ClosePort] \<and>
   statusChanges
     (fst (cleanupConnection (\<lambda>operation. Resolves) (constructor\<lparr>port := Some 0\<rparr>))) = []"
proof -
  have r: "readable (\<lambda>operation. Resolves)"
    by (simp add: readable_def)
  have h: "\<not> isDisconnecting connectedReader" "port connectedReader \<noteq> None"
    by (simp_all add: connectedReader_def constructor_def)
  have "calls (fst (disconnect (\<lambda>operation. Resolves) connectedReader)) =
     [CancelReader, CloseWriter, AwaitReadable, ClosePort]"
    by (simp add: disconnect_runs [OF h] Let_def cleanupConnection_readable [OF r] calls_append
        isSet_disconnecting)
      (simp add: connectedReader_def constructor_def)
  moreover have
    "calls (fst (cleanupConnection (\<lambda>operation. Resolves) (constructor\<lparr>port := Some 0\<rparr>))) =
     [ClosePort]"
    by (simp add: cleanupConnection_readable [OF r] constructor_def)
  ultimately show ?thesis
    by (simp add: statusChanges_cleanupConnection)
qed

end
